theory Spec2Isabelle
  imports
    Main
    "HOL-Library.Word"
    "HOL-Library.Signed_Division"
    "HOL-Library.Char_ord"
    "HOL-Library.List_Lexorder"
begin

section \<open>The Mython interpreter: values, statements and tokens\<close>

text \<open>
  A shallow embedding of \<^verbatim>\<open>runtime.h\<close>/\<^verbatim>\<open>runtime.cpp\<close> (values, classes, comparisons),
  \<^verbatim>\<open>statement.h\<close>/\<^verbatim>\<open>statement.cpp\<close> (the executable nodes) and \<^verbatim>\<open>lexer.h\<close>/\<^verbatim>\<open>lexer.cpp\<close>
  (the scanner).

  \<^item> \<^verbatim>\<open>int\<close> is a 32-bit two's complement word (\<open>32 word\<close>, read with \<open>sint\<close>); the
    arithmetic of \<^verbatim>\<open>Add\<close>, \<^verbatim>\<open>Sub\<close>, \<^verbatim>\<open>Mult\<close> wraps, where C++ leaves signed overflow
    undefined.
  \<^item> \<^verbatim>\<open>std::string\<close> is \<open>string\<close>; its \<^verbatim>\<open>operator<\<close> is the lexicographic order on
    unsigned bytes, the order of \<open>char list\<close>.
  \<^item> An \<^verbatim>\<open>ObjectHolder\<close> is empty, or holds an object through \<^verbatim>\<open>Own\<close> (a counted
    pointer) or \<^verbatim>\<open>Share\<close> (a pointer with a deleter that does nothing).
  \<^item> A \<^verbatim>\<open>ClassInstance\<close> is a member of the \<^verbatim>\<open>NewInstance\<close> node that creates it, so an
    instance is identified by the address of its node (a \<open>nat\<close>) and its field table
    lives in a store indexed by that address. Its class is fixed when the node is built
    and travels with the address.
  \<^item> Names are those of the source; \<open>_stmt\<close>, \<open>_cmp\<close> and \<open>_tok\<close> are added where a
    node, a comparator and a token share a name with each other or with a constant of
    the logic.
\<close>

text \<open>
  The six functions a \<^verbatim>\<open>Comparison\<close> node is built with (its \<^verbatim>\<open>Comparator\<close> is a
  \<^verbatim>\<open>std::function\<close>; the runtime offers these six).
\<close>

datatype Comparator =
    Equal_cmp | NotEqual_cmp | Less_cmp | Greater_cmp | LessOrEqual_cmp | GreaterOrEqual_cmp

datatype Statement =
    NumericConst "32 word"
  | StringConst string
  | BoolConst bool
  | None_stmt
  | VariableValue string "string list"
  | Assignment string Statement
  | FieldAssignment string "string list" string Statement
  | Print "Statement list"
  | MethodCall Statement string "Statement list"
  | Stringify Statement
  | Add Statement Statement
  | Sub Statement Statement
  | Mult Statement Statement
  | Div Statement Statement
  | Compound "Statement list"
  | Return Statement
  | ClassDefinition ObjectHolder
  | IfElse Statement Statement "Statement option"
  | Or Statement Statement
  | And Statement Statement
  | Not_stmt Statement
  | Comparison Comparator Statement Statement
  | NewInstance nat Class "Statement list"
  | MethodBody Statement
and Class = Class string "Method list" "Class option"
and Method = Method string "string list" Statement
and Object =
    Number "32 word"
  | String string
  | Bool bool
  | ClassObject Class
  | ClassInstance nat Class
and ObjectHolder = Empty | Own Object | Share Object

section \<open>The runtime (\<^verbatim>\<open>runtime.cpp\<close>)\<close>

text \<open>
  The messages of the \<^verbatim>\<open>std::runtime_error\<close>s the evaluator throws, one constructor per
  \<^verbatim>\<open>throw\<close> site.
\<close>

datatype runtime_error =
    VariableNotFound
  | VariableIsNotClass
  | ObjectIsNotClassInstance
  | CannotAdd
  | CannotSubtract
  | CannotMultiply
  | DivisionByZero
  | CannotDivide
  | ObjectIsNotClass
  | NoMethod
  | CannotCompare

text \<open>
  How an evaluation ends when it does not return a value: \<^verbatim>\<open>Return::Execute\<close> throws an
  \<^verbatim>\<open>ObjectHolder\<close>, the failures throw a \<^verbatim>\<open>std::runtime_error\<close>, \<open>Crash\<close> is a failed
  \<^verbatim>\<open>assert\<close>, a null pointer dereference or an undefined \<^verbatim>\<open>int\<close> division, and \<open>OutOfFuel\<close>
  stands for the evaluations the model cuts off (the program recurses without bound).
\<close>

datatype Signal =
    ThrowReturn ObjectHolder
  | ThrowError runtime_error
  | Crash
  | OutOfFuel

type_synonym Closure = "string \<Rightarrow> ObjectHolder option"

text \<open>
  What an evaluation can change besides the closure it is given: the field tables of the
  instances (by address) and the characters written to \<^verbatim>\<open>context.GetOutputStream()\<close>.
\<close>

record State =
  Fields :: "nat \<Rightarrow> Closure"
  output_stream :: string

type_synonym Execute_fn =
  "Statement \<Rightarrow> Closure \<Rightarrow> State \<Rightarrow> (Signal + ObjectHolder) \<times> Closure \<times> State"

definition STR_METHOD :: string where "STR_METHOD = ''__str__''"
definition EQ_METHOD :: string where "EQ_METHOD = ''__eq__''"
definition LESS_METHOD :: string where "LESS_METHOD = ''__lt__''"
definition ADD_METHOD :: string where "ADD_METHOD = ''__add__''"
definition INIT_METHOD :: string where "INIT_METHOD = ''__init__''"
definition EMPTY_OBJECT :: string where "EMPTY_OBJECT = ''None''"

fun Get :: "ObjectHolder \<Rightarrow> Object option" where
  "Get Empty = None"
| "Get (Own obj) = Some obj"
| "Get (Share obj) = Some obj"

text \<open>\<^verbatim>\<open>TryAs<T>\<close> is a \<^verbatim>\<open>dynamic_cast\<close> of \<^verbatim>\<open>Get()\<close>; it is null on the empty holder.\<close>

fun TryAs_Number :: "ObjectHolder \<Rightarrow> 32 word option" where
  "TryAs_Number h = (case Get h of Some (Number v) \<Rightarrow> Some v | _ \<Rightarrow> None)"

fun TryAs_String :: "ObjectHolder \<Rightarrow> string option" where
  "TryAs_String h = (case Get h of Some (String v) \<Rightarrow> Some v | _ \<Rightarrow> None)"

fun TryAs_Bool :: "ObjectHolder \<Rightarrow> bool option" where
  "TryAs_Bool h = (case Get h of Some (Bool v) \<Rightarrow> Some v | _ \<Rightarrow> None)"

fun TryAs_Class :: "ObjectHolder \<Rightarrow> Class option" where
  "TryAs_Class h = (case Get h of Some (ClassObject c) \<Rightarrow> Some c | _ \<Rightarrow> None)"

fun TryAs_ClassInstance :: "ObjectHolder \<Rightarrow> (nat \<times> Class) option" where
  "TryAs_ClassInstance h = (case Get h of Some (ClassInstance a c) \<Rightarrow> Some (a, c) | _ \<Rightarrow> None)"

fun IsTrue :: "ObjectHolder \<Rightarrow> bool" where
  "IsTrue object =
     (case TryAs_Bool object of Some v \<Rightarrow> v = True
      | None \<Rightarrow>
     (case TryAs_Number object of Some v \<Rightarrow> \<not> (v = 0)
      | None \<Rightarrow>
     (case TryAs_String object of Some v \<Rightarrow> \<not> (v = [])
      | None \<Rightarrow> False)))"

fun Method_name :: "Method \<Rightarrow> string" where
  "Method_name (Method name formal_params body) = name"

fun formal_params :: "Method \<Rightarrow> string list" where
  "formal_params (Method name params body) = params"

fun Method_body :: "Method \<Rightarrow> Statement" where
  "Method_body (Method name params body) = body"

fun GetName :: "Class \<Rightarrow> string" where
  "GetName (Class name methods parent) = name"

text \<open>The class's own methods first (\<^verbatim>\<open>std::find_if\<close>), then the parent's.\<close>

fun GetMethod :: "Class \<Rightarrow> string \<Rightarrow> Method option" where
  "GetMethod (Class cname methods parent) name =
     (case find (\<lambda>mtd. Method_name mtd = name) methods of
        Some res \<Rightarrow> Some res
      | None \<Rightarrow> (case parent of Some p \<Rightarrow> GetMethod p name | None \<Rightarrow> None))"

definition HasMethod :: "Class \<Rightarrow> string \<Rightarrow> nat \<Rightarrow> bool" where
  "HasMethod cls method argument_count =
     (case GetMethod cls method of
        Some mtd \<Rightarrow> length (formal_params mtd) = argument_count
      | None \<Rightarrow> False)"

text \<open>
  \<^verbatim>\<open>ClassInstance::Call\<close>: the closure of the call holds \<^verbatim>\<open>self\<close> and then the formal
  parameters, bound in order (a later binding of the same name replaces an earlier one).
  The closure is local to the call and dropped when the body has run.
\<close>

definition bind_params :: "string list \<Rightarrow> ObjectHolder list \<Rightarrow> Closure \<Rightarrow> Closure" where
  "bind_params params actual_args args =
     fold (\<lambda>(param, v) m. m(param \<mapsto> v)) (zip params actual_args) args"

definition Call ::
  "Execute_fn \<Rightarrow> nat \<Rightarrow> Class \<Rightarrow> string \<Rightarrow> ObjectHolder list \<Rightarrow> State
     \<Rightarrow> (Signal + ObjectHolder) \<times> State" where
  "Call ex this cls method actual_args s =
     (if \<not> HasMethod cls method (length actual_args) then (Inl (ThrowError NoMethod), s)
      else case GetMethod cls method of
        None \<Rightarrow> (Inl Crash, s)
      | Some mtd \<Rightarrow>
          (let args = bind_params (formal_params mtd) actual_args
                        (Map.empty(''self'' \<mapsto> Share (ClassInstance this cls)))
           in case ex (Method_body mtd) args s of (r, args', s') \<Rightarrow> (r, s')))"

subsection \<open>Printing\<close>

fun string_of_nat :: "nat \<Rightarrow> string" where
  "string_of_nat n =
     (if n < 10 then [char_of (48 + n)]
      else string_of_nat (n div 10) @ [char_of (48 + n mod 10)])"

definition string_of_int :: "int \<Rightarrow> string" where
  "string_of_int i = (if i < 0 then CHR ''-'' # string_of_nat (nat (- i)) else string_of_nat (nat i))"

fun hex_digit :: "nat \<Rightarrow> char" where
  "hex_digit d = (if d < 10 then char_of (48 + d) else char_of (87 + d))"

fun hex_of_nat :: "nat \<Rightarrow> string" where
  "hex_of_nat n = (if n < 16 then [hex_digit n] else hex_of_nat (n div 16) @ [hex_digit (n mod 16)])"

text \<open>\<^verbatim>\<open>os << this\<close>: the address of the instance, as the stream prints a pointer.\<close>

definition address_text :: "nat \<Rightarrow> string" where
  "address_text this = ''0x'' @ hex_of_nat this"

text \<open>
  \<^verbatim>\<open>Object::Print(os, context)\<close>, with the characters it writes to \<^verbatim>\<open>os\<close> returned as a
  string: \<^verbatim>\<open>ClassInstance::Print\<close> writes to \<^verbatim>\<open>os\<close> only through the \<^verbatim>\<open>Print\<close> of the
  object that \<^verbatim>\<open>__str__\<close> returned, after the call, so the caller appends the text to the
  stream it passed. What the body of \<^verbatim>\<open>__str__\<close> prints goes to the context's stream, in
  the state. An empty holder returned by \<^verbatim>\<open>__str__\<close> fails \<^verbatim>\<open>AssertIsValid\<close>.
  The first argument is the number of nested \<^verbatim>\<open>__str__\<close> results followed.
\<close>

fun Object_Print :: "nat \<Rightarrow> Execute_fn \<Rightarrow> Object \<Rightarrow> State \<Rightarrow> (Signal + string) \<times> State" where
  "Object_Print n ex (Number v) s = (Inr (string_of_int (sint v)), s)"
| "Object_Print n ex (String v) s = (Inr v, s)"
| "Object_Print n ex (Bool v) s = (Inr (if v then ''True'' else ''False''), s)"
| "Object_Print n ex (ClassObject cls) s = (Inr (''Class '' @ GetName cls), s)"
| "Object_Print 0 ex (ClassInstance this cls) s =
     (if HasMethod cls STR_METHOD 0 then (Inl OutOfFuel, s) else (Inr (address_text this), s))"
| "Object_Print (Suc n) ex (ClassInstance this cls) s =
     (if HasMethod cls STR_METHOD 0 then
        (case Call ex this cls STR_METHOD [] s of
           (Inl sig, s1) \<Rightarrow> (Inl sig, s1)
         | (Inr h, s1) \<Rightarrow>
             (case Get h of None \<Rightarrow> (Inl Crash, s1) | Some obj \<Rightarrow> Object_Print n ex obj s1))
      else (Inr (address_text this), s))"

subsection \<open>Comparisons\<close>

datatype BinaryPredicate = equal_to | less

definition pred :: "BinaryPredicate \<Rightarrow> 'a::linorder \<Rightarrow> 'a \<Rightarrow> bool" where
  "pred p l r = (case p of equal_to \<Rightarrow> l = r | less \<Rightarrow> l < r)"

text \<open>
  \<^verbatim>\<open>Comp\<close>: both \<^verbatim>\<open>Bool\<close>, both \<^verbatim>\<open>Number\<close> (compared as signed \<^verbatim>\<open>int\<close>s) or both
  \<^verbatim>\<open>String\<close>; anything else throws.
\<close>

definition Comp :: "ObjectHolder \<Rightarrow> ObjectHolder \<Rightarrow> BinaryPredicate \<Rightarrow> runtime_error + bool" where
  "Comp lhs rhs p =
     (case (TryAs_Bool lhs, TryAs_Bool rhs) of
        (Some l, Some r) \<Rightarrow> Inr (pred p l r)
      | _ \<Rightarrow>
     (case (TryAs_Number lhs, TryAs_Number rhs) of
        (Some l, Some r) \<Rightarrow> Inr (pred p (sint l) (sint r))
      | _ \<Rightarrow>
     (case (TryAs_String lhs, TryAs_String rhs) of
        (Some l, Some r) \<Rightarrow> Inr (pred p l r)
      | _ \<Rightarrow> Inl CannotCompare)))"

definition Equal :: "Execute_fn \<Rightarrow> ObjectHolder \<Rightarrow> ObjectHolder \<Rightarrow> State \<Rightarrow> (Signal + bool) \<times> State" where
  "Equal ex lhs rhs s =
     (case Comp lhs rhs equal_to of
        Inr b \<Rightarrow> (Inr b, s)
      | Inl e \<Rightarrow>
          (case TryAs_ClassInstance lhs of
             Some (l, cls) \<Rightarrow>
               (case Call ex l cls EQ_METHOD [rhs] s of
                  (Inl sig, s1) \<Rightarrow> (Inl sig, s1)
                | (Inr h, s1) \<Rightarrow> (Inr (IsTrue h), s1))
           | None \<Rightarrow>
               if Get lhs = None \<and> Get rhs = None then (Inr True, s)
               else (Inl (ThrowError e), s)))"

definition Less :: "Execute_fn \<Rightarrow> ObjectHolder \<Rightarrow> ObjectHolder \<Rightarrow> State \<Rightarrow> (Signal + bool) \<times> State" where
  "Less ex lhs rhs s =
     (case Comp lhs rhs less of
        Inr b \<Rightarrow> (Inr b, s)
      | Inl e \<Rightarrow>
          (case TryAs_ClassInstance lhs of
             Some (l, cls) \<Rightarrow>
               (case Call ex l cls LESS_METHOD [rhs] s of
                  (Inl sig, s1) \<Rightarrow> (Inl sig, s1)
                | (Inr h, s1) \<Rightarrow> (Inr (IsTrue h), s1))
           | None \<Rightarrow> (Inl (ThrowError e), s)))"

definition NotEqual :: "Execute_fn \<Rightarrow> ObjectHolder \<Rightarrow> ObjectHolder \<Rightarrow> State \<Rightarrow> (Signal + bool) \<times> State" where
  "NotEqual ex lhs rhs s =
     (case Equal ex lhs rhs s of (Inl sig, s1) \<Rightarrow> (Inl sig, s1) | (Inr b, s1) \<Rightarrow> (Inr (\<not> b), s1))"

text \<open>\<^verbatim>\<open>!(Less(..) || Equal(..))\<close>: \<^verbatim>\<open>Equal\<close> is called only when \<^verbatim>\<open>Less\<close> returned false.\<close>

definition Greater :: "Execute_fn \<Rightarrow> ObjectHolder \<Rightarrow> ObjectHolder \<Rightarrow> State \<Rightarrow> (Signal + bool) \<times> State" where
  "Greater ex lhs rhs s =
     (case Less ex lhs rhs s of
        (Inl sig, s1) \<Rightarrow> (Inl sig, s1)
      | (Inr lt, s1) \<Rightarrow>
          if lt then (Inr False, s1)
          else (case Equal ex lhs rhs s1 of
                  (Inl sig, s2) \<Rightarrow> (Inl sig, s2)
                | (Inr eq, s2) \<Rightarrow> (Inr (\<not> eq), s2)))"

definition LessOrEqual :: "Execute_fn \<Rightarrow> ObjectHolder \<Rightarrow> ObjectHolder \<Rightarrow> State \<Rightarrow> (Signal + bool) \<times> State" where
  "LessOrEqual ex lhs rhs s =
     (case Greater ex lhs rhs s of (Inl sig, s1) \<Rightarrow> (Inl sig, s1) | (Inr b, s1) \<Rightarrow> (Inr (\<not> b), s1))"

definition GreaterOrEqual :: "Execute_fn \<Rightarrow> ObjectHolder \<Rightarrow> ObjectHolder \<Rightarrow> State \<Rightarrow> (Signal + bool) \<times> State" where
  "GreaterOrEqual ex lhs rhs s =
     (case Less ex lhs rhs s of (Inl sig, s1) \<Rightarrow> (Inl sig, s1) | (Inr b, s1) \<Rightarrow> (Inr (\<not> b), s1))"

fun apply_cmp ::
  "Comparator \<Rightarrow> Execute_fn \<Rightarrow> ObjectHolder \<Rightarrow> ObjectHolder \<Rightarrow> State \<Rightarrow> (Signal + bool) \<times> State" where
  "apply_cmp Equal_cmp = Equal"
| "apply_cmp NotEqual_cmp = NotEqual"
| "apply_cmp Less_cmp = Less"
| "apply_cmp Greater_cmp = Greater"
| "apply_cmp LessOrEqual_cmp = LessOrEqual"
| "apply_cmp GreaterOrEqual_cmp = GreaterOrEqual"

section \<open>The evaluator (\<^verbatim>\<open>statement.cpp\<close>)\<close>

text \<open>
  Every function below takes the evaluator \<open>ex\<close> it uses for the statements it holds; the
  evaluator itself, \<open>Execute\<close>, ties the knot at the end. A result is the value returned
  or the signal thrown, with the closure and the state as the evaluation left them (what
  was assigned or printed before a \<^verbatim>\<open>throw\<close> stays assigned and printed).
\<close>

text \<open>
  \<^verbatim>\<open>VariableValue::Execute\<close>: the name is looked up in the closure, each name of the tail
  in the fields of the instance found so far. It reads only.
\<close>

fun VariableValue_Execute :: "string \<Rightarrow> string list \<Rightarrow> Closure \<Rightarrow> State \<Rightarrow> runtime_error + ObjectHolder" where
  "VariableValue_Execute var_name [] closure s =
     (case closure var_name of None \<Rightarrow> Inl VariableNotFound | Some result \<Rightarrow> Inr result)"
| "VariableValue_Execute var_name (t # tail) closure s =
     (case closure var_name of
        None \<Rightarrow> Inl VariableNotFound
      | Some result \<Rightarrow>
          (case TryAs_ClassInstance result of
             Some (obj, cls) \<Rightarrow> VariableValue_Execute t tail (Fields s obj) s
           | None \<Rightarrow> Inl VariableIsNotClass))"

text \<open>The loop \<^verbatim>\<open>for (auto &arg : args_) actual_args.push_back(arg->Execute(..))\<close>.\<close>

primrec Execute_args ::
  "Execute_fn \<Rightarrow> Statement list \<Rightarrow> Closure \<Rightarrow> State \<Rightarrow> (Signal + ObjectHolder list) \<times> Closure \<times> State" where
  "Execute_args ex [] closure s = (Inr [], closure, s)"
| "Execute_args ex (arg # args) closure s =
     (case ex arg closure s of
        (Inl sig, c1, s1) \<Rightarrow> (Inl sig, c1, s1)
      | (Inr v, c1, s1) \<Rightarrow>
          (case Execute_args ex args c1 s1 of
             (Inl sig, c2, s2) \<Rightarrow> (Inl sig, c2, s2)
           | (Inr vs, c2, s2) \<Rightarrow> (Inr (v # vs), c2, s2)))"

text \<open>
  The loop of \<^verbatim>\<open>Print::Execute\<close>: the separating space is written before the argument is
  evaluated.
\<close>

primrec Print_args ::
  "nat \<Rightarrow> Execute_fn \<Rightarrow> Statement list \<Rightarrow> bool \<Rightarrow> Closure \<Rightarrow> State \<Rightarrow> (Signal + unit) \<times> Closure \<times> State" where
  "Print_args n ex [] first closure s = (Inr (), closure, s)"
| "Print_args n ex (arg # args) first closure s =
     (let s0 = (if \<not> first then s\<lparr>output_stream := output_stream s @ '' ''\<rparr> else s) in
      case ex arg closure s0 of
        (Inl sig, c1, s1) \<Rightarrow> (Inl sig, c1, s1)
      | (Inr obj, c1, s1) \<Rightarrow>
          (case Get obj of
             Some object \<Rightarrow>
               (case Object_Print n ex object s1 of
                  (Inl sig, s2) \<Rightarrow> (Inl sig, c1, s2)
                | (Inr text, s2) \<Rightarrow>
                    Print_args n ex args False c1 (s2\<lparr>output_stream := output_stream s2 @ text\<rparr>))
           | None \<Rightarrow>
               Print_args n ex args False c1 (s1\<lparr>output_stream := output_stream s1 @ EMPTY_OBJECT\<rparr>)))"

primrec Compound_args :: "Execute_fn \<Rightarrow> Statement list \<Rightarrow> Closure \<Rightarrow> State \<Rightarrow> (Signal + unit) \<times> Closure \<times> State" where
  "Compound_args ex [] closure s = (Inr (), closure, s)"
| "Compound_args ex (arg # args) closure s =
     (case ex arg closure s of
        (Inl sig, c1, s1) \<Rightarrow> (Inl sig, c1, s1)
      | (Inr v, c1, s1) \<Rightarrow> Compound_args ex args c1 s1)"

text \<open>
  \<^verbatim>\<open>int / int\<close> truncates towards zero. The C++ division is undefined for a zero divisor
  and for \<^verbatim>\<open>INT_MIN / -1\<close>, whose quotient is not an \<^verbatim>\<open>int\<close> (the division instruction traps
  and the program is killed): there the model has no quotient, and \<^verbatim>\<open>Div\<close>, which rules out
  only the zero divisor, ends with \<open>Crash\<close>.
\<close>

definition INT_MIN :: int where "INT_MIN = - 2147483648"

definition int_div :: "32 word \<Rightarrow> 32 word \<Rightarrow> 32 word option" where
  "int_div l r =
     (if r = 0 \<or> (sint l = INT_MIN \<and> sint r = - 1) then None
      else Some (word_of_int (sint l sdiv sint r)))"

text \<open>
  The macro \<^verbatim>\<open>BINARY_OPERATION(type, operation)\<close> for \<^verbatim>\<open>runtime::Number\<close> and for
  \<^verbatim>\<open>runtime::String\<close>: the result when both holders have the type. The equation of \<^verbatim>\<open>Div\<close>
  has the macro written out, for the division that may have no result.
\<close>

definition BINARY_OPERATION_Number ::
  "(32 word \<Rightarrow> 32 word \<Rightarrow> 32 word) \<Rightarrow> ObjectHolder \<Rightarrow> ObjectHolder \<Rightarrow> ObjectHolder option" where
  "BINARY_OPERATION_Number operation left_holder right_holder =
     (case (TryAs_Number left_holder, TryAs_Number right_holder) of
        (Some l, Some r) \<Rightarrow> Some (Own (Number (operation l r)))
      | _ \<Rightarrow> None)"

definition BINARY_OPERATION_String ::
  "(string \<Rightarrow> string \<Rightarrow> string) \<Rightarrow> ObjectHolder \<Rightarrow> ObjectHolder \<Rightarrow> ObjectHolder option" where
  "BINARY_OPERATION_String operation left_holder right_holder =
     (case (TryAs_String left_holder, TryAs_String right_holder) of
        (Some l, Some r) \<Rightarrow> Some (Own (String (operation l r)))
      | _ \<Rightarrow> None)"

text \<open>
  The operands of the four arithmetic nodes: \<^verbatim>\<open>lhs_\<close>, then \<^verbatim>\<open>rhs_\<close>. \<^verbatim>\<open>Comparison\<close>
  evaluates its operands as the arguments of one call, in an order C++ leaves open; the
  model takes \<^verbatim>\<open>lhs_\<close> first there too. The two orders differ only when both operands have
  an effect or fail, and nothing is stated below of a \<^verbatim>\<open>Comparison\<close> in that case.
\<close>

definition Execute_operands ::
  "Execute_fn \<Rightarrow> Statement \<Rightarrow> Statement \<Rightarrow> Closure \<Rightarrow> State
     \<Rightarrow> (Signal + ObjectHolder \<times> ObjectHolder) \<times> Closure \<times> State" where
  "Execute_operands ex lhs rhs closure s =
     (case ex lhs closure s of
        (Inl sig, c1, s1) \<Rightarrow> (Inl sig, c1, s1)
      | (Inr left_holder, c1, s1) \<Rightarrow>
          (case ex rhs c1 s1 of
             (Inl sig, c2, s2) \<Rightarrow> (Inl sig, c2, s2)
           | (Inr right_holder, c2, s2) \<Rightarrow> (Inr (left_holder, right_holder), c2, s2)))"

text \<open>
  The \<^verbatim>\<open>Execute\<close> method of each node. \<open>n\<close> bounds the chain of \<^verbatim>\<open>__str__\<close> results a
  printed instance may go through.
\<close>

fun Statement_Execute :: "nat \<Rightarrow> Execute_fn \<Rightarrow> Execute_fn" where
  "Statement_Execute n ex (NumericConst v) closure s = (Inr (Share (Number v)), closure, s)"
| "Statement_Execute n ex (StringConst v) closure s = (Inr (Share (String v)), closure, s)"
| "Statement_Execute n ex (BoolConst v) closure s = (Inr (Share (Bool v)), closure, s)"
| "Statement_Execute n ex None_stmt closure s = (Inr Empty, closure, s)"
| "Statement_Execute n ex (VariableValue var_name tail) closure s =
     (case VariableValue_Execute var_name tail closure s of
        Inl e \<Rightarrow> (Inl (ThrowError e), closure, s)
      | Inr result \<Rightarrow> (Inr result, closure, s))"
| "Statement_Execute n ex (Assignment var rv) closure s =
     (case ex rv closure s of
        (Inl sig, c1, s1) \<Rightarrow> (Inl sig, c1, s1)
      | (Inr v, c1, s1) \<Rightarrow> (Inr v, c1(var \<mapsto> v), s1))"
| "Statement_Execute n ex (FieldAssignment var_name tail field_name rv) closure s =
     (case VariableValue_Execute var_name tail closure s of
        Inl e \<Rightarrow> (Inl (ThrowError e), closure, s)
      | Inr h \<Rightarrow>
          (case TryAs_ClassInstance h of
             None \<Rightarrow> (Inl (ThrowError ObjectIsNotClass), closure, s)
           | Some (obj, cls) \<Rightarrow>
               (case ex rv closure s of
                  (Inl sig, c1, s1) \<Rightarrow> (Inl sig, c1, s1)
                | (Inr v, c1, s1) \<Rightarrow>
                    (Inr v, c1, s1\<lparr>Fields := (Fields s1)(obj := (Fields s1 obj)(field_name \<mapsto> v))\<rparr>))))"
| "Statement_Execute n ex (Print args) closure s =
     (case Print_args n ex args True closure s of
        (Inl sig, c1, s1) \<Rightarrow> (Inl sig, c1, s1)
      | (Inr u, c1, s1) \<Rightarrow> (Inr Empty, c1, s1\<lparr>output_stream := output_stream s1 @ [CHR 0x0A]\<rparr>))"
| "Statement_Execute n ex (MethodCall object method args) closure s =
     (case ex object closure s of
        (Inl sig, c1, s1) \<Rightarrow> (Inl sig, c1, s1)
      | (Inr h, c1, s1) \<Rightarrow>
          (case TryAs_ClassInstance h of
             None \<Rightarrow> (Inl (ThrowError ObjectIsNotClassInstance), c1, s1)
           | Some (class_instance, cls) \<Rightarrow>
               (case Execute_args ex args c1 s1 of
                  (Inl sig, c2, s2) \<Rightarrow> (Inl sig, c2, s2)
                | (Inr actual_args, c2, s2) \<Rightarrow>
                    (case Call ex class_instance cls method actual_args s2 of
                       (r, s3) \<Rightarrow> (r, c2, s3)))))"
| "Statement_Execute n ex (Stringify argument) closure s =
     (case ex argument closure s of
        (Inl sig, c1, s1) \<Rightarrow> (Inl sig, c1, s1)
      | (Inr obj, c1, s1) \<Rightarrow>
          (case Get obj of
             Some object \<Rightarrow>
               (case Object_Print n ex object s1 of
                  (Inl sig, s2) \<Rightarrow> (Inl sig, c1, s2)
                | (Inr os, s2) \<Rightarrow> (Inr (Own (String os)), c1, s2))
           | None \<Rightarrow> (Inr (Own (String EMPTY_OBJECT)), c1, s1)))"
| "Statement_Execute n ex (Add lhs rhs) closure s =
     (case Execute_operands ex lhs rhs closure s of
        (Inl sig, c2, s2) \<Rightarrow> (Inl sig, c2, s2)
      | (Inr (left_holder, right_holder), c2, s2) \<Rightarrow>
          (case BINARY_OPERATION_Number (+) left_holder right_holder of
             Some r \<Rightarrow> (Inr r, c2, s2)
           | None \<Rightarrow>
          (case BINARY_OPERATION_String (@) left_holder right_holder of
             Some r \<Rightarrow> (Inr r, c2, s2)
           | None \<Rightarrow>
          (case TryAs_ClassInstance left_holder of
             Some (left_class, cls) \<Rightarrow>
               (case Call ex left_class cls ADD_METHOD [right_holder] s2 of (r, s3) \<Rightarrow> (r, c2, s3))
           | None \<Rightarrow> (Inl (ThrowError CannotAdd), c2, s2)))))"
| "Statement_Execute n ex (Sub lhs rhs) closure s =
     (case Execute_operands ex lhs rhs closure s of
        (Inl sig, c2, s2) \<Rightarrow> (Inl sig, c2, s2)
      | (Inr (left_holder, right_holder), c2, s2) \<Rightarrow>
          (case BINARY_OPERATION_Number (-) left_holder right_holder of
             Some r \<Rightarrow> (Inr r, c2, s2)
           | None \<Rightarrow> (Inl (ThrowError CannotSubtract), c2, s2)))"
| "Statement_Execute n ex (Mult lhs rhs) closure s =
     (case Execute_operands ex lhs rhs closure s of
        (Inl sig, c2, s2) \<Rightarrow> (Inl sig, c2, s2)
      | (Inr (left_holder, right_holder), c2, s2) \<Rightarrow>
          (case BINARY_OPERATION_Number (*) left_holder right_holder of
             Some r \<Rightarrow> (Inr r, c2, s2)
           | None \<Rightarrow> (Inl (ThrowError CannotMultiply), c2, s2)))"
| "Statement_Execute n ex (Div lhs rhs) closure s =
     (case Execute_operands ex lhs rhs closure s of
        (Inl sig, c2, s2) \<Rightarrow> (Inl sig, c2, s2)
      | (Inr (left_holder, right_holder), c2, s2) \<Rightarrow>
          (if (case TryAs_Number right_holder of Some right \<Rightarrow> right = 0 | None \<Rightarrow> False)
           then (Inl (ThrowError DivisionByZero), c2, s2)
           else
             (case (TryAs_Number left_holder, TryAs_Number right_holder) of
                (Some l, Some r) \<Rightarrow>
                  (case int_div l r of
                     Some v \<Rightarrow> (Inr (Own (Number v)), c2, s2)
                   | None \<Rightarrow> (Inl Crash, c2, s2))
              | _ \<Rightarrow> (Inl (ThrowError CannotDivide), c2, s2))))"
| "Statement_Execute n ex (Compound args) closure s =
     (case Compound_args ex args closure s of
        (Inl sig, c1, s1) \<Rightarrow> (Inl sig, c1, s1)
      | (Inr u, c1, s1) \<Rightarrow> (Inr Empty, c1, s1))"
| "Statement_Execute n ex (Return statement) closure s =
     (case ex statement closure s of
        (Inl sig, c1, s1) \<Rightarrow> (Inl sig, c1, s1)
      | (Inr v, c1, s1) \<Rightarrow> (Inl (ThrowReturn v), c1, s1))"
| "Statement_Execute n ex (ClassDefinition cls) closure s =
     (case TryAs_Class cls of
        None \<Rightarrow> (Inl Crash, closure, s)
      | Some c \<Rightarrow> (Inr Empty, closure(GetName c \<mapsto> cls), s))"
| "Statement_Execute n ex (IfElse condition if_body else_body) closure s =
     (case ex condition closure s of
        (Inl sig, c1, s1) \<Rightarrow> (Inl sig, c1, s1)
      | (Inr v, c1, s1) \<Rightarrow>
          if IsTrue v then ex if_body c1 s1
          else (case else_body of Some b \<Rightarrow> ex b c1 s1 | None \<Rightarrow> (Inr Empty, c1, s1)))"
| "Statement_Execute n ex (Or lhs rhs) closure s =
     (case ex lhs closure s of
        (Inl sig, c1, s1) \<Rightarrow> (Inl sig, c1, s1)
      | (Inr l, c1, s1) \<Rightarrow>
          if IsTrue l then (Inr (Own (Bool True)), c1, s1)
          else (case ex rhs c1 s1 of
                  (Inl sig, c2, s2) \<Rightarrow> (Inl sig, c2, s2)
                | (Inr r, c2, s2) \<Rightarrow> (Inr (Own (Bool (IsTrue r))), c2, s2)))"
| "Statement_Execute n ex (And lhs rhs) closure s =
     (case ex lhs closure s of
        (Inl sig, c1, s1) \<Rightarrow> (Inl sig, c1, s1)
      | (Inr l, c1, s1) \<Rightarrow>
          if IsTrue l then
            (case ex rhs c1 s1 of
               (Inl sig, c2, s2) \<Rightarrow> (Inl sig, c2, s2)
             | (Inr r, c2, s2) \<Rightarrow> (Inr (Own (Bool (IsTrue r))), c2, s2))
          else (Inr (Own (Bool False)), c1, s1))"
| "Statement_Execute n ex (Not_stmt argument) closure s =
     (case ex argument closure s of
        (Inl sig, c1, s1) \<Rightarrow> (Inl sig, c1, s1)
      | (Inr v, c1, s1) \<Rightarrow> (Inr (Own (Bool (\<not> IsTrue v))), c1, s1))"
| "Statement_Execute n ex (Comparison cmp lhs rhs) closure s =
     (case Execute_operands ex lhs rhs closure s of
        (Inl sig, c2, s2) \<Rightarrow> (Inl sig, c2, s2)
      | (Inr (l, r), c2, s2) \<Rightarrow>
          (case apply_cmp cmp ex l r s2 of
             (Inl sig, s3) \<Rightarrow> (Inl sig, c2, s3)
           | (Inr result, s3) \<Rightarrow> (Inr (Own (Bool result)), c2, s3)))"
| "Statement_Execute n ex (NewInstance class_instance cls args) closure s =
     (if HasMethod cls INIT_METHOD (length args) then
        (case Execute_args ex args closure s of
           (Inl sig, c1, s1) \<Rightarrow> (Inl sig, c1, s1)
         | (Inr actual_args, c1, s1) \<Rightarrow>
             (case Call ex class_instance cls INIT_METHOD actual_args s1 of
                (Inl sig, s2) \<Rightarrow> (Inl sig, c1, s2)
              | (Inr v, s2) \<Rightarrow> (Inr (Share (ClassInstance class_instance cls)), c1, s2)))
      else (Inr (Share (ClassInstance class_instance cls)), closure, s))"
| "Statement_Execute n ex (MethodBody body) closure s =
     (case ex body closure s of
        (Inr v, c1, s1) \<Rightarrow> (Inr Empty, c1, s1)
      | (Inl (ThrowReturn result), c1, s1) \<Rightarrow> (Inr result, c1, s1)
      | (Inl sig, c1, s1) \<Rightarrow> (Inl sig, c1, s1))"

text \<open>
  The evaluator. A method call runs the body of a method that is not part of the calling
  statement, and a method may call itself for ever (the C++ stack overflows then), so the
  depth of the evaluation is bounded by the first argument; when the bound is reached
  the result is \<open>OutOfFuel\<close>.
\<close>

primrec Execute :: "nat \<Rightarrow> Execute_fn" where
  "Execute 0 statement closure s = (Inl OutOfFuel, closure, s)"
| "Execute (Suc n) statement closure s = Statement_Execute n (Execute n) statement closure s"

text \<open>
  An evaluator extends another when it repeats each of its results that is not
  \<open>OutOfFuel\<close>.
\<close>

definition extends :: "Execute_fn \<Rightarrow> Execute_fn \<Rightarrow> bool" where
  "extends ex ex' \<longleftrightarrow>
     (\<forall>st c s r c' s'. ex st c s = (r, c', s') \<and> r \<noteq> Inl OutOfFuel \<longrightarrow> ex' st c s = (r, c', s'))"

text \<open>
  A statement evaluates to a result when some depth suffices for it: the result of the
  C++ evaluation, when it ends. The same for a list of arguments.
\<close>

definition evaluates ::
  "Statement \<Rightarrow> Closure \<Rightarrow> State \<Rightarrow> (Signal + ObjectHolder) \<times> Closure \<times> State \<Rightarrow> bool" where
  "evaluates st c s res \<longleftrightarrow> (\<exists>n. Execute n st c s = res \<and> fst res \<noteq> Inl OutOfFuel)"

definition evaluates_args ::
  "Statement list \<Rightarrow> Closure \<Rightarrow> State \<Rightarrow> (Signal + ObjectHolder list) \<times> Closure \<times> State \<Rightarrow> bool" where
  "evaluates_args args c s res \<longleftrightarrow>
     (\<exists>n. Execute_args (Execute n) args c s = res \<and> fst res \<noteq> Inl OutOfFuel)"

text \<open>
  The arguments of a \<^verbatim>\<open>Print\<close> are evaluated and printed; \<open>first\<close> tells whether a
  separating space goes before the first of them.
\<close>

definition evaluates_print ::
  "Statement list \<Rightarrow> bool \<Rightarrow> Closure \<Rightarrow> State \<Rightarrow> (Signal + unit) \<times> Closure \<times> State \<Rightarrow> bool" where
  "evaluates_print args first c s res \<longleftrightarrow>
     (\<exists>n. Print_args n (Execute n) args first c s = res \<and> fst res \<noteq> Inl OutOfFuel)"

section \<open>The scanner (\<^verbatim>\<open>lexer.cpp\<close>)\<close>

datatype Token =
    Number_tok "32 word"
  | Id_tok string
  | Char_tok char
  | String_tok string
  | Class_tok | Return_tok | If_tok | Else_tok | Def_tok
  | Newline_tok | Print_tok | Indent_tok | Dedent_tok
  | And_tok | Or_tok | Not_tok
  | Eq_tok | NotEq_tok | LessOrEq_tok | GreaterOrEq_tok
  | None_tok | True_tok | False_tok | Eof_tok

text \<open>
  What the scanner throws: the \<^verbatim>\<open>std::runtime_error\<close> of \<^verbatim>\<open>ReadString\<close> and the
  \<^verbatim>\<open>std::out_of_range\<close> of \<^verbatim>\<open>std::stoi\<close>.
\<close>

datatype lexer_error = FailedToParseString | StoiOutOfRange

text \<open>
  The stream \<^verbatim>\<open>input_\<close> is the list of the characters not yet read (the field
  \<open>input_stream\<close>); the other fields carry the names of the members, without the final
  underscore. \<^verbatim>\<open>char ch = input_.peek()\<close> turns the end of the stream into the character
  \<^verbatim>\<open>0xFF\<close> (\<^verbatim>\<open>char\<close> is signed and \<^verbatim>\<open>eof()\<close> is \<open>-1\<close>), so the test \<^verbatim>\<open>ch == eof()\<close> also
  holds on the byte \<^verbatim>\<open>0xFF\<close>: \<open>peek\<close> below is that \<^verbatim>\<open>char\<close>.
\<close>

record Lexer =
  input_stream :: string
  start_of_line :: bool
  current_indent :: "32 word"
  line_indent :: "32 word"
  current_token :: Token

definition peek :: "string \<Rightarrow> char" where
  "peek input = (case input of [] \<Rightarrow> CHR 0xFF | c # rest \<Rightarrow> c)"

definition KeyWords :: "(string \<times> Token) list" where
  "KeyWords =
     [(''class'', Class_tok), (''return'', Return_tok), (''if'', If_tok), (''else'', Else_tok),
      (''def'', Def_tok), (''print'', Print_tok), (''and'', And_tok), (''or'', Or_tok),
      (''not'', Not_tok), (''None'', None_tok), (''True'', True_tok), (''False'', False_tok)]"

definition DualSymbols :: "(string \<times> Token) list" where
  "DualSymbols =
     [(''=='', Eq_tok), (''!='', NotEq_tok), (''>='', GreaterOrEq_tok), (''<='', LessOrEq_tok)]"

definition IsNum :: "char \<Rightarrow> bool" where
  "IsNum ch = (CHR ''0'' \<le> ch \<and> ch \<le> CHR ''9'')"

definition IsAlpha :: "char \<Rightarrow> bool" where
  "IsAlpha ch = ((CHR ''A'' \<le> ch \<and> ch \<le> CHR ''Z'') \<or> (CHR ''a'' \<le> ch \<and> ch \<le> CHR ''z''))"

definition IsAlNum :: "char \<Rightarrow> bool" where
  "IsAlNum ch = (IsAlpha ch \<or> IsNum ch)"

definition IsAlNumLL :: "char \<Rightarrow> bool" where
  "IsAlNumLL ch = (IsAlNum ch \<or> ch = CHR ''_'')"

text \<open>
  \<^verbatim>\<open>ReadString\<close>. \<open>c\<close> is the variable of the loop (\<open>None\<close> before the first read): when
  the stream ends, the string is accepted only if the last character read into \<open>c\<close> is
  the opening quote. After a backslash at the very end nothing is appended.
\<close>

fun ReadString_loop :: "char \<Rightarrow> char option \<Rightarrow> string \<Rightarrow> string \<Rightarrow> lexer_error + string \<times> string" where
  "ReadString_loop first c line [] =
     (if c = Some first then Inr (line, []) else Inl FailedToParseString)"
| "ReadString_loop first c line (d # input) =
     (if d = CHR 0x5C then
        (case input of
           [] \<Rightarrow> ReadString_loop first (Some d) line []
         | next # input' \<Rightarrow>
             ReadString_loop first (Some d)
               (if next = CHR 0x22 then line @ [CHR 0x22]
                else if next = CHR 0x27 then line @ [CHR 0x27]
                else if next = CHR ''n'' then line @ [CHR 0x0A]
                else if next = CHR ''t'' then line @ [CHR 0x09]
                else line)
               input')
      else if d = first then Inr (line, input)
      else ReadString_loop first (Some d) (line @ [d]) input)"

definition ReadString :: "string \<Rightarrow> lexer_error + string \<times> string" where
  "ReadString input = ReadString_loop (peek input) None [] (tl input)"

definition ReadName :: "string \<Rightarrow> string \<times> string" where
  "ReadName input = (takeWhile IsAlNumLL input, dropWhile IsAlNumLL input)"

definition CountSpaces :: "string \<Rightarrow> nat \<times> string" where
  "CountSpaces input = (length (takeWhile (\<lambda>c. c = CHR '' '') input), dropWhile (\<lambda>c. c = CHR '' '') input)"

text \<open>\<^verbatim>\<open>getline\<close>: up to the next newline, which is read and dropped.\<close>

definition ReadLine :: "string \<Rightarrow> string \<times> string" where
  "ReadLine input =
     (takeWhile (\<lambda>c. c \<noteq> CHR 0x0A) input, drop 1 (dropWhile (\<lambda>c. c \<noteq> CHR 0x0A) input))"

definition digit_value :: "char \<Rightarrow> nat" where
  "digit_value c = of_char c - 48"

definition decimal_value :: "string \<Rightarrow> nat" where
  "decimal_value num = foldl (\<lambda>acc c. 10 * acc + digit_value c) 0 num"

definition INT_MAX :: nat where
  "INT_MAX = 2147483647"

text \<open>\<^verbatim>\<open>std::stoi\<close> on a run of digits: the value, or \<^verbatim>\<open>std::out_of_range\<close> beyond \<^verbatim>\<open>INT_MAX\<close>.\<close>

definition stoi :: "string \<Rightarrow> lexer_error + 32 word" where
  "stoi num = (if decimal_value num \<le> INT_MAX then Inr (of_nat (decimal_value num)) else Inl StoiOutOfRange)"

definition ReadNumber :: "string \<Rightarrow> lexer_error + 32 word \<times> string" where
  "ReadNumber input =
     (let num = takeWhile IsNum input; rest = dropWhile IsNum input in
      if num = [] then Inr (0, rest)
      else case stoi num of Inl e \<Rightarrow> Inl e | Inr v \<Rightarrow> Inr (v, rest))"

definition NextLine :: "Lexer \<Rightarrow> Lexer" where
  "NextLine lx = lx\<lparr>input_stream := snd (ReadLine (input_stream lx)), start_of_line := True, line_indent := 0\<rparr>"

definition ParseEOF :: "Lexer \<Rightarrow> Lexer" where
  "ParseEOF lx =
     (if \<not> start_of_line lx then (NextLine lx)\<lparr>current_token := Newline_tok\<rparr>
      else if current_indent lx > 0
        then lx\<lparr>current_indent := current_indent lx - 1, current_token := Dedent_tok\<rparr>
      else lx\<lparr>current_token := Eof_tok\<rparr>)"

definition ParseIndent :: "Lexer \<Rightarrow> Lexer" where
  "ParseIndent lx =
     (if current_indent lx < line_indent lx
        then lx\<lparr>current_indent := current_indent lx + 1, current_token := Indent_tok\<rparr>
      else if current_indent lx > line_indent lx
        then lx\<lparr>current_indent := current_indent lx - 1, current_token := Dedent_tok\<rparr>
      else lx)"

definition ParseName :: "Lexer \<Rightarrow> Lexer" where
  "ParseName lx =
     (case ReadName (input_stream lx) of (name, rest) \<Rightarrow>
        (case map_of KeyWords name of
           Some tok \<Rightarrow> lx\<lparr>input_stream := rest, current_token := tok\<rparr>
         | None \<Rightarrow> lx\<lparr>input_stream := rest, current_token := Id_tok name\<rparr>))"

definition ParseChar :: "Lexer \<Rightarrow> Lexer" where
  "ParseChar lx =
     (let sym_pair = [peek (input_stream lx), peek (tl (input_stream lx))] in
      case map_of DualSymbols sym_pair of
        Some tok \<Rightarrow> lx\<lparr>input_stream := tl (tl (input_stream lx)), current_token := tok\<rparr>
      | None \<Rightarrow> lx\<lparr>input_stream := tl (input_stream lx), current_token := Char_tok (peek (input_stream lx))\<rparr>)"

definition ParseToken :: "Lexer \<Rightarrow> lexer_error + Lexer" where
  "ParseToken lx =
     (let ch = peek (input_stream lx) in
      if IsNum ch then
        (case ReadNumber (input_stream lx) of
           Inl e \<Rightarrow> Inl e
         | Inr (v, rest) \<Rightarrow> Inr (lx\<lparr>input_stream := rest, current_token := Number_tok v\<rparr>))
      else if IsAlNumLL ch then Inr (ParseName lx)
      else if ch = CHR 0x22 \<or> ch = CHR 0x27 then
        (case ReadString (input_stream lx) of
           Inl e \<Rightarrow> Inl e
         | Inr (v, rest) \<Rightarrow> Inr (lx\<lparr>input_stream := rest, current_token := String_tok v\<rparr>))
      else Inr (ParseChar lx))"

text \<open>
  \<^verbatim>\<open>ParseComment\<close> reads up to the next newline and puts it back; \<^verbatim>\<open>ParseSpaces\<close> counts
  the spaces and sets \<^verbatim>\<open>line_indent\<close> (a \<^verbatim>\<open>uint32_t\<close>) at the start of a line. Both, and
  \<^verbatim>\<open>ParseLineEnd\<close> on an empty line, go on with \<^verbatim>\<open>ReadNextToken\<close>.
\<close>

definition ParseComment_skip :: "Lexer \<Rightarrow> Lexer" where
  "ParseComment_skip lx = lx\<lparr>input_stream := dropWhile (\<lambda>c. c \<noteq> CHR 0x0A) (input_stream lx)\<rparr>"

definition ParseSpaces_skip :: "Lexer \<Rightarrow> Lexer" where
  "ParseSpaces_skip lx =
     (case CountSpaces (input_stream lx) of (spaces_count, rest) \<Rightarrow>
        if start_of_line lx
          then lx\<lparr>input_stream := rest, line_indent := of_nat (spaces_count div 2)\<rparr>
        else lx\<lparr>input_stream := rest\<rparr>)"

text \<open>
  \<^verbatim>\<open>ReadNextToken\<close>. It calls itself after an empty line, a comment and a run of spaces;
  each of them reads at least one character, which is the termination proof further down.
\<close>

function ReadNextToken :: "Lexer \<Rightarrow> lexer_error + Lexer" where
  "ReadNextToken lx =
     (if peek (input_stream lx) = CHR 0xFF then Inr (ParseEOF lx)
      else if peek (input_stream lx) = CHR 0x0A then
        (if start_of_line lx then ReadNextToken (NextLine lx)
         else Inr ((NextLine lx)\<lparr>current_token := Newline_tok\<rparr>))
      else if peek (input_stream lx) = CHR ''#'' then ReadNextToken (ParseComment_skip lx)
      else if peek (input_stream lx) = CHR '' '' then ReadNextToken (ParseSpaces_skip lx)
      else if start_of_line lx \<and> current_indent lx \<noteq> line_indent lx then Inr (ParseIndent lx)
      else (case ParseToken lx of
              Inl e \<Rightarrow> Inl e
            | Inr lx' \<Rightarrow> Inr (lx'\<lparr>start_of_line := False\<rparr>)))"
  by pat_completeness auto

subsection \<open>The token stream\<close>

text \<open>
  \<^verbatim>\<open>NextToken\<close> is \<^verbatim>\<open>ReadNextToken\<close> followed by a read of \<^verbatim>\<open>current_token_\<close>. The stream
  of a scanner is what its calls return up to the first \<^verbatim>\<open>Eof\<close>. That every stream gets
  there, or fails, is the termination proof of \<open>tokens_after\<close> further down.
\<close>

function tokens_after :: "Lexer \<Rightarrow> lexer_error + Token list" where
  "tokens_after lx =
     (case ReadNextToken lx of
        Inl e \<Rightarrow> Inl e
      | Inr lx' \<Rightarrow>
          if current_token lx' = Eof_tok then Inr [Eof_tok]
          else (case tokens_after lx' of
                  Inl e \<Rightarrow> Inl e
                | Inr ts \<Rightarrow> Inr (current_token lx' # ts)))"
  by pat_completeness auto

text \<open>
  The constructor \<^verbatim>\<open>Lexer(input)\<close> reads the first token with \<^verbatim>\<open>ReadNextToken\<close>, from
  the default members (the default \<^verbatim>\<open>Token\<close> is the first alternative, \<^verbatim>\<open>Number{0}\<close>);
  the stream of an input is that token and what \<^verbatim>\<open>NextToken\<close> returns after it.
\<close>

definition Lexer_tokens :: "string \<Rightarrow> lexer_error + Token list" where
  "Lexer_tokens input =
     tokens_after \<lparr>input_stream = input, start_of_line = True, current_indent = 0,
                   line_indent = 0, current_token = Number_tok 0\<rparr>"

text \<open>The states in which \<^verbatim>\<open>ReadNextToken\<close> does not call itself.\<close>

definition direct :: "Lexer \<Rightarrow> bool" where
  "direct lx \<longleftrightarrow>
     peek (input_stream lx) \<noteq> CHR ''#'' \<and> peek (input_stream lx) \<noteq> CHR '' '' \<and>
     (peek (input_stream lx) = CHR 0x0A \<longrightarrow> \<not> start_of_line lx)"

text \<open>
  What decreases when a call reads nothing and leaves \<^verbatim>\<open>start_of_line_\<close> as it is: at the
  end of the input the indentation still open, elsewhere the distance between the
  indentation emitted and that of the line.
\<close>

definition indent_distance :: "Lexer \<Rightarrow> nat" where
  "indent_distance lx =
     (if peek (input_stream lx) = CHR 0xFF then unat (current_indent lx)
      else if current_indent lx < line_indent lx then unat (line_indent lx) - unat (current_indent lx)
      else unat (current_indent lx) - unat (line_indent lx))"

section \<open>Programs and states used as examples\<close>

text \<open>The state before a program runs: no instance has a field, nothing is printed.\<close>

definition initial_State :: State where
  "initial_State = \<lparr>Fields = (\<lambda>this. Map.empty), output_stream = []\<rparr>"

text \<open>
  \<^verbatim>\<open>class A\<close> with \<^verbatim>\<open>def __init__(x)\<close>, and \<^verbatim>\<open>class B(A)\<close> with \<^verbatim>\<open>def __init__()\<close>, which
  hides the one of \<^verbatim>\<open>A\<close>.
\<close>

definition class_A :: Class where
  "class_A = Class ''A'' [Method ''__init__'' [''x''] (MethodBody (Compound []))] None"

definition class_B :: Class where
  "class_B = Class ''B'' [Method ''__init__'' [] (MethodBody (Compound []))] (Some class_A)"

text \<open>
  \<^verbatim>\<open>class P\<close> whose \<^verbatim>\<open>__str__\<close> prints a line before it returns its text.
\<close>

definition class_P :: Class where
  "class_P = Class ''P''
     [Method ''__str__'' []
        (MethodBody (Compound [Print [StringConst ''side''], Return (StringConst ''P'')]))]
     None"

text \<open>
  \<^verbatim>\<open>class G\<close>: \<^verbatim>\<open>g\<close> returns 1; \<^verbatim>\<open>f\<close> calls \<^verbatim>\<open>self.g()\<close> and then returns 2. \<open>self_G\<close> is
  the closure of a call of a method on the instance at address 0.
\<close>

definition class_G :: Class where
  "class_G = Class ''G''
     [Method ''g'' [] (MethodBody (Return (NumericConst 1))),
      Method ''f'' []
        (MethodBody (Compound [MethodCall (VariableValue ''self'' []) ''g'' [],
                               Return (NumericConst 2)]))]
     None"

definition self_G :: Closure where
  "self_G = Map.empty(''self'' \<mapsto> Share (ClassInstance 0 class_G))"

text \<open>
  \<^verbatim>\<open>class N\<close>: \<^verbatim>\<open>g\<close> prints a line and returns 1 from inside an \<^verbatim>\<open>if\<close>, with statements
  after the \<^verbatim>\<open>return\<close> and after the \<^verbatim>\<open>if\<close>; \<^verbatim>\<open>f\<close> calls \<^verbatim>\<open>self.g()\<close> and then returns 2.
  \<open>self_N\<close> is the closure of a call of a method on the instance at address 0.
\<close>

definition body_g :: Statement where
  "body_g = Compound
     [Print [StringConst ''in g''],
      IfElse (BoolConst True)
        (Compound [Return (NumericConst 1), Print [StringConst ''after return'']]) None,
      Print [StringConst ''after if'']]"

definition class_N :: Class where
  "class_N = Class ''N''
     [Method ''g'' [] (MethodBody body_g),
      Method ''f'' []
        (MethodBody (Compound [MethodCall (VariableValue ''self'' []) ''g'' [],
                               Return (NumericConst 2)]))]
     None"

definition self_N :: Closure where
  "self_N = Map.empty(''self'' \<mapsto> Share (ClassInstance 0 class_N))"

section \<open>Predicates of the statements below\<close>

text \<open>Two holders of the same primitive kind: both \<^verbatim>\<open>Bool\<close>, both \<^verbatim>\<open>Number\<close> or both \<^verbatim>\<open>String\<close>.\<close>

definition same_primitive_kind :: "ObjectHolder \<Rightarrow> ObjectHolder \<Rightarrow> bool" where
  "same_primitive_kind a b \<longleftrightarrow>
     (TryAs_Bool a \<noteq> None \<and> TryAs_Bool b \<noteq> None)
   \<or> (TryAs_Number a \<noteq> None \<and> TryAs_Number b \<noteq> None)
   \<or> (TryAs_String a \<noteq> None \<and> TryAs_String b \<noteq> None)"

definition exactly_one :: "bool \<Rightarrow> bool \<Rightarrow> bool \<Rightarrow> bool" where
  "exactly_one p q r \<longleftrightarrow> (p \<and> \<not> q \<and> \<not> r) \<or> (\<not> p \<and> q \<and> \<not> r) \<or> (\<not> p \<and> \<not> q \<and> r)"

section \<open>Termination of the scanner\<close>

lemma NextLine_shorter:
  "peek (input_stream lx) = CHR 0x0A \<Longrightarrow> length (input_stream (NextLine lx)) < length (input_stream lx)"
  by (cases "input_stream lx") (auto simp: NextLine_def ReadLine_def peek_def)

lemma ParseComment_skip_shorter:
  "peek (input_stream lx) = CHR ''#'' \<Longrightarrow> length (input_stream (ParseComment_skip lx)) < length (input_stream lx)"
  by (cases "input_stream lx")
     (auto simp: ParseComment_skip_def peek_def less_Suc_eq_le length_dropWhile_le)

lemma ParseSpaces_skip_shorter:
  "peek (input_stream lx) = CHR '' '' \<Longrightarrow> length (input_stream (ParseSpaces_skip lx)) < length (input_stream lx)"
  by (cases "input_stream lx")
     (auto simp: ParseSpaces_skip_def CountSpaces_def peek_def less_Suc_eq_le length_dropWhile_le)

termination ReadNextToken
  by (relation "measure (\<lambda>lx. length (input_stream lx))")
     (auto simp: NextLine_shorter ParseComment_skip_shorter ParseSpaces_skip_shorter)

declare ReadNextToken.simps [simp del]

lemma ReadString_loop_length:
  "ReadString_loop first c line inp = Inr (v, rest) \<Longrightarrow> length rest \<le> length inp"
  by (induction first c line inp rule: ReadString_loop.induct)
     (auto split: if_splits list.splits)

lemma map_of_KeyWords_structural:
  "map_of KeyWords name = Some tok \<Longrightarrow> tok \<noteq> Indent_tok \<and> tok \<noteq> Dedent_tok \<and> tok \<noteq> Eof_tok"
  by (auto simp: KeyWords_def split: if_splits)

lemma map_of_DualSymbols_structural:
  "map_of DualSymbols name = Some tok \<Longrightarrow> tok \<noteq> Indent_tok \<and> tok \<noteq> Dedent_tok \<and> tok \<noteq> Eof_tok"
  by (auto simp: DualSymbols_def split: if_splits)

lemma peek_not_eof_nonempty: "peek inp \<noteq> CHR 0xFF \<Longrightarrow> inp \<noteq> []"
  by (auto simp: peek_def)

lemma ParseToken_step:
  assumes "ParseToken lx = Inr lx'" and "peek (input_stream lx) \<noteq> CHR 0xFF"
  shows "length (input_stream lx') < length (input_stream lx)
       \<and> current_indent lx' = current_indent lx
       \<and> line_indent lx' = line_indent lx
       \<and> start_of_line lx' = start_of_line lx
       \<and> current_token lx' \<noteq> Indent_tok \<and> current_token lx' \<noteq> Dedent_tok \<and> current_token lx' \<noteq> Eof_tok"
proof -
  obtain c rest where inp: "input_stream lx = c # rest"
    using assms(2) by (cases "input_stream lx") (auto simp: peek_def)
  show ?thesis
  proof (cases "IsNum c")
    case True
    then show ?thesis using assms(1) inp
      by (auto simp: ParseToken_def peek_def ReadNumber_def Let_def less_Suc_eq_le length_dropWhile_le
               split: sum.splits prod.splits if_splits)
  next
    case notnum: False
    show ?thesis
    proof (cases "IsAlNumLL c")
      case True
      then show ?thesis using assms(1) inp notnum
        by (auto simp: ParseToken_def peek_def ParseName_def ReadName_def less_Suc_eq_le length_dropWhile_le
                 dest: map_of_KeyWords_structural split: option.splits)
    next
      case notal: False
      show ?thesis
      proof (cases "c = CHR 0x22 \<or> c = CHR 0x27")
        case True
        then show ?thesis using assms(1) inp notnum notal
          by (auto simp: ParseToken_def peek_def ReadString_def less_Suc_eq_le
                   dest: ReadString_loop_length split: sum.splits prod.splits)
      next
        case False
        then show ?thesis using assms(1) inp notnum notal
          by (auto simp: ParseToken_def peek_def ParseChar_def Let_def
                   dest: map_of_DualSymbols_structural split: option.splits list.splits)
      qed
    qed
  qed
qed

lemma word_inc_unat:
  fixes a b :: "32 word"
  assumes "a < b"
  shows "unat (a + 1) = Suc (unat a)"
proof -
  have "unat a < unat b" using assms by (simp add: word_less_nat_alt)
  moreover have "unat b < 2 ^ LENGTH(32)" by (rule unsigned_less)
  ultimately have "unat a + unat (1 :: 32 word) < 2 ^ LENGTH(32)" by simp
  then have "unat (a + 1) = unat a + unat (1 :: 32 word)" by (simp only: unat_add_lem)
  then show ?thesis by simp
qed

lemma word_dec_unat:
  fixes a b :: "32 word"
  assumes "b < a"
  shows "unat a = Suc (unat (a - 1))"
proof -
  have "a \<noteq> 0" using assms by auto
  then have "unat (a - 1) = unat a - 1" by (rule unat_minus_one)
  moreover have "0 < unat a" using \<open>a \<noteq> 0\<close> by (simp add: unat_gt_0)
  ultimately show ?thesis by simp
qed

lemma ReadNextToken_direct:
  "\<exists>lx0. direct lx0 \<and> ReadNextToken lx = ReadNextToken lx0
      \<and> current_indent lx0 = current_indent lx
      \<and> (lx0 = lx \<or> length (input_stream lx0) < length (input_stream lx))"
proof (induction lx rule: ReadNextToken.induct)
  case (1 lx)
  consider (eof) "peek (input_stream lx) = CHR 0xFF"
    | (nl) "peek (input_stream lx) \<noteq> CHR 0xFF" "peek (input_stream lx) = CHR 0x0A"
    | (cm) "peek (input_stream lx) \<noteq> CHR 0xFF" "peek (input_stream lx) \<noteq> CHR 0x0A" "peek (input_stream lx) = CHR ''#''"
    | (sp) "peek (input_stream lx) \<noteq> CHR 0xFF" "peek (input_stream lx) \<noteq> CHR 0x0A" "peek (input_stream lx) \<noteq> CHR ''#''" "peek (input_stream lx) = CHR '' ''"
    | (other) "peek (input_stream lx) \<noteq> CHR 0xFF" "peek (input_stream lx) \<noteq> CHR 0x0A" "peek (input_stream lx) \<noteq> CHR ''#''" "peek (input_stream lx) \<noteq> CHR '' ''"
    by blast
  then show ?case
  proof cases
    case eof
    then have "direct lx" by (simp add: direct_def)
    then show ?thesis by blast
  next
    case nl
    show ?thesis
    proof (cases "start_of_line lx")
      case True
      from "1.IH"(1) [OF nl True] obtain lx0 where
        "direct lx0" "ReadNextToken (NextLine lx) = ReadNextToken lx0"
        "current_indent lx0 = current_indent (NextLine lx)"
        "lx0 = NextLine lx \<or> length (input_stream lx0) < length (input_stream (NextLine lx))"
        by blast
      moreover have "ReadNextToken lx = ReadNextToken (NextLine lx)"
        using nl True by (simp add: ReadNextToken.simps [of lx])
      moreover have "current_indent (NextLine lx) = current_indent lx"
        by (simp add: NextLine_def)
      ultimately show ?thesis
        using NextLine_shorter [OF nl(2)] by (metis less_trans)
    next
      case False
      with nl have "direct lx" by (simp add: direct_def)
      then show ?thesis by blast
    qed
  next
    case cm
    from "1.IH"(2) [OF cm] obtain lx0 where
      "direct lx0" "ReadNextToken (ParseComment_skip lx) = ReadNextToken lx0"
      "current_indent lx0 = current_indent (ParseComment_skip lx)"
      "lx0 = ParseComment_skip lx \<or> length (input_stream lx0) < length (input_stream (ParseComment_skip lx))"
      by blast
    moreover have "ReadNextToken lx = ReadNextToken (ParseComment_skip lx)"
      using cm by (simp add: ReadNextToken.simps [of lx])
    moreover have "current_indent (ParseComment_skip lx) = current_indent lx"
      by (simp add: ParseComment_skip_def)
    ultimately show ?thesis
      using ParseComment_skip_shorter [OF cm(3)] by (metis less_trans)
  next
    case sp
    from "1.IH"(3) [OF sp] obtain lx0 where
      "direct lx0" "ReadNextToken (ParseSpaces_skip lx) = ReadNextToken lx0"
      "current_indent lx0 = current_indent (ParseSpaces_skip lx)"
      "lx0 = ParseSpaces_skip lx \<or> length (input_stream lx0) < length (input_stream (ParseSpaces_skip lx))"
      by blast
    moreover have "ReadNextToken lx = ReadNextToken (ParseSpaces_skip lx)"
      using sp by (simp add: ReadNextToken.simps [of lx])
    moreover have "current_indent (ParseSpaces_skip lx) = current_indent lx"
      by (simp add: ParseSpaces_skip_def CountSpaces_def)
    ultimately show ?thesis
      using ParseSpaces_skip_shorter [OF sp(4)] by (metis less_trans)
  next
    case other
    then have "direct lx" by (simp add: direct_def)
    then show ?thesis by blast
  qed
qed

lemma ParseEOF_step:
  assumes "peek (input_stream lx) = CHR 0xFF"
  shows "length (input_stream (ParseEOF lx)) \<le> length (input_stream lx)"
    and "(current_token (ParseEOF lx) = Dedent_tok \<and> unat (current_indent lx) = Suc (unat (current_indent (ParseEOF lx))))
       \<or> (current_token (ParseEOF lx) = Eof_tok \<and> current_indent lx = 0 \<and> current_indent (ParseEOF lx) = 0)
       \<or> (current_token (ParseEOF lx) = Newline_tok \<and> current_indent (ParseEOF lx) = current_indent lx)"
    and "current_token (ParseEOF lx) \<noteq> Eof_tok \<Longrightarrow>
           (\<not> start_of_line lx \<and> start_of_line (ParseEOF lx))
         \<or> (start_of_line (ParseEOF lx) = start_of_line lx \<and> input_stream (ParseEOF lx) = input_stream lx
              \<and> indent_distance (ParseEOF lx) < indent_distance lx)"
proof -
  show "length (input_stream (ParseEOF lx)) \<le> length (input_stream lx)"
    by (auto simp: ParseEOF_def NextLine_def ReadLine_def
             intro: order_trans [OF diff_le_self length_dropWhile_le])
  show "(current_token (ParseEOF lx) = Dedent_tok \<and> unat (current_indent lx) = Suc (unat (current_indent (ParseEOF lx))))
       \<or> (current_token (ParseEOF lx) = Eof_tok \<and> current_indent lx = 0 \<and> current_indent (ParseEOF lx) = 0)
       \<or> (current_token (ParseEOF lx) = Newline_tok \<and> current_indent (ParseEOF lx) = current_indent lx)"
    using word_dec_unat [of 0 "current_indent lx"]
    by (auto simp: ParseEOF_def NextLine_def word_gt_0)
  show "current_token (ParseEOF lx) \<noteq> Eof_tok \<Longrightarrow>
           (\<not> start_of_line lx \<and> start_of_line (ParseEOF lx))
         \<or> (start_of_line (ParseEOF lx) = start_of_line lx \<and> input_stream (ParseEOF lx) = input_stream lx
              \<and> indent_distance (ParseEOF lx) < indent_distance lx)"
    using word_dec_unat [of 0 "current_indent lx"] assms
    by (auto simp: ParseEOF_def NextLine_def indent_distance_def word_gt_0 split: if_splits)
qed

lemma ParseIndent_step:
  assumes "current_indent lx \<noteq> line_indent lx" and "peek (input_stream lx) \<noteq> CHR 0xFF"
  shows "(current_token (ParseIndent lx) = Indent_tok \<and> unat (current_indent (ParseIndent lx)) = Suc (unat (current_indent lx)))
       \<or> (current_token (ParseIndent lx) = Dedent_tok \<and> unat (current_indent lx) = Suc (unat (current_indent (ParseIndent lx))))"
    and "start_of_line (ParseIndent lx) = start_of_line lx \<and> input_stream (ParseIndent lx) = input_stream lx
              \<and> indent_distance (ParseIndent lx) < indent_distance lx"
proof -
  consider (lt) "current_indent lx < line_indent lx" | (gt) "line_indent lx < current_indent lx"
    using assms(1) by (meson linorder_neqE)
  then have "((current_token (ParseIndent lx) = Indent_tok \<and> unat (current_indent (ParseIndent lx)) = Suc (unat (current_indent lx)))
       \<or> (current_token (ParseIndent lx) = Dedent_tok \<and> unat (current_indent lx) = Suc (unat (current_indent (ParseIndent lx)))))
     \<and> (start_of_line (ParseIndent lx) = start_of_line lx \<and> input_stream (ParseIndent lx) = input_stream lx
              \<and> indent_distance (ParseIndent lx) < indent_distance lx)"
  proof cases
    case lt
    have u: "unat (current_indent lx + 1) = Suc (unat (current_indent lx))"
      by (rule word_inc_unat [OF lt])
    have l: "unat (current_indent lx) < unat (line_indent lx)"
      using lt by (simp add: word_less_nat_alt)
    show ?thesis using lt u l assms(2)
      by (auto simp: ParseIndent_def indent_distance_def word_less_nat_alt)
  next
    case gt
    have u: "unat (current_indent lx) = Suc (unat (current_indent lx - 1))"
      by (rule word_dec_unat [OF gt])
    have l: "unat (line_indent lx) < unat (current_indent lx)"
      using gt by (simp add: word_less_nat_alt)
    have n: "\<not> current_indent lx < line_indent lx" using gt by simp
    show ?thesis using gt u l n assms(2)
      by (auto simp: ParseIndent_def indent_distance_def word_less_nat_alt)
  qed
  then show "(current_token (ParseIndent lx) = Indent_tok \<and> unat (current_indent (ParseIndent lx)) = Suc (unat (current_indent lx)))
       \<or> (current_token (ParseIndent lx) = Dedent_tok \<and> unat (current_indent lx) = Suc (unat (current_indent (ParseIndent lx))))"
    and "start_of_line (ParseIndent lx) = start_of_line lx \<and> input_stream (ParseIndent lx) = input_stream lx
              \<and> indent_distance (ParseIndent lx) < indent_distance lx"
    by blast+
qed

lemma ReadNextToken_direct_cases:
  assumes "direct lx" and "ReadNextToken lx = Inr lx'"
  obtains (eof) "peek (input_stream lx) = CHR 0xFF" "lx' = ParseEOF lx"
    | (newline) "peek (input_stream lx) = CHR 0x0A" "lx' = (NextLine lx)\<lparr>current_token := Newline_tok\<rparr>"
    | (indent) "peek (input_stream lx) \<noteq> CHR 0xFF" "current_indent lx \<noteq> line_indent lx" "lx' = ParseIndent lx"
    | (token) lx1 where "peek (input_stream lx) \<noteq> CHR 0xFF" "ParseToken lx = Inr lx1" "lx' = lx1\<lparr>start_of_line := False\<rparr>"
  using assms
  by (auto simp: direct_def ReadNextToken.simps [of lx] split: if_splits sum.splits)

lemma ReadNextToken_indent:
  assumes "ReadNextToken lx = Inr lx'"
  shows "(current_token lx' = Indent_tok \<and> unat (current_indent lx') = Suc (unat (current_indent lx)))
       \<or> (current_token lx' = Dedent_tok \<and> unat (current_indent lx) = Suc (unat (current_indent lx')))
       \<or> (current_token lx' = Eof_tok \<and> current_indent lx = 0 \<and> current_indent lx' = 0)
       \<or> (current_token lx' \<noteq> Indent_tok \<and> current_token lx' \<noteq> Dedent_tok \<and> current_token lx' \<noteq> Eof_tok
            \<and> current_indent lx' = current_indent lx)"
proof -
  obtain lx0 where d: "direct lx0" and r: "ReadNextToken lx0 = Inr lx'"
    and c: "current_indent lx0 = current_indent lx"
    using ReadNextToken_direct [of lx] assms by auto
  from d r show ?thesis
  proof (cases rule: ReadNextToken_direct_cases)
    case eof
    then show ?thesis using ParseEOF_step(2) [OF eof(1)] c by auto
  next
    case newline
    then show ?thesis using c by (simp add: NextLine_def)
  next
    case indent
    then show ?thesis using ParseIndent_step(1) [OF indent(2,1)] c by auto
  next
    case (token lx1)
    then show ?thesis using ParseToken_step [OF token(2,1)] c by simp
  qed
qed

lemma ReadNextToken_measure:
  assumes "ReadNextToken lx = Inr lx'" and "current_token lx' \<noteq> Eof_tok"
  shows "(lx', lx) \<in> measures [\<lambda>lx. length (input_stream lx),
                               \<lambda>lx. if start_of_line lx then 0 else 1,
                               indent_distance]"
proof -
  obtain lx0 where d: "direct lx0" and r: "ReadNextToken lx0 = Inr lx'"
    and l: "lx0 = lx \<or> length (input_stream lx0) < length (input_stream lx)"
    using ReadNextToken_direct [of lx] assms by auto
  from d r have "(lx', lx0) \<in> measures [\<lambda>lx. length (input_stream lx),
                               \<lambda>lx. if start_of_line lx then 0 else 1,
                               indent_distance]"
  proof (cases rule: ReadNextToken_direct_cases)
    case eof
    then show ?thesis
      using ParseEOF_step(1) [OF eof(1)] ParseEOF_step(3) [OF eof(1)] assms(2) by auto
  next
    case newline
    then show ?thesis using NextLine_shorter [OF newline(1)] by simp
  next
    case indent
    then show ?thesis using ParseIndent_step(2) [OF indent(2,1)] by auto
  next
    case (token lx1)
    then show ?thesis using ParseToken_step [OF token(2,1)] by simp
  qed
  then show ?thesis using l by auto
qed

termination tokens_after
  by (relation "measures [\<lambda>lx. length (input_stream lx),
                          \<lambda>lx. if start_of_line lx then 0 else 1,
                          indent_distance]")
     (auto intro: ReadNextToken_measure simp del: measures_less measures_lesseq in_measures)

declare tokens_after.simps [simp del]

lemma tokens_after_balanced:
  "tokens_after lx = Inr ts \<Longrightarrow>
     \<exists>front. ts = front @ [Eof_tok] \<and> Eof_tok \<notin> set front
       \<and> count_list front Dedent_tok = count_list front Indent_tok + unat (current_indent lx)"
proof (induction lx arbitrary: ts rule: tokens_after.induct)
  case (1 lx)
  from "1.prems" obtain lx' where r: "ReadNextToken lx = Inr lx'"
    by (auto simp: tokens_after.simps [of lx] split: sum.splits)
  note ind = ReadNextToken_indent [OF r]
  show ?case
  proof (cases "current_token lx' = Eof_tok")
    case True
    with "1.prems" r have "ts = [Eof_tok]"
      by (simp add: tokens_after.simps [of lx])
    with True ind show ?thesis by auto
  next
    case False
    with "1.prems" r obtain ts' where t: "tokens_after lx' = Inr ts'" and ts: "ts = current_token lx' # ts'"
      by (auto simp: tokens_after.simps [of lx] split: sum.splits)
    from "1.IH" [OF r False t] obtain front where
      f: "ts' = front @ [Eof_tok]" "Eof_tok \<notin> set front"
         "count_list front Dedent_tok = count_list front Indent_tok + unat (current_indent lx')"
      by blast
    have "ts = (current_token lx' # front) @ [Eof_tok]" using ts f(1) by simp
    moreover have "Eof_tok \<notin> set (current_token lx' # front)" using False f(2) by simp
    moreover have "count_list (current_token lx' # front) Dedent_tok
        = count_list (current_token lx' # front) Indent_tok + unat (current_indent lx)"
      using ind f(3) False by auto
    ultimately show ?thesis by blast
  qed
qed

text \<open>The definitions a concrete evaluation unfolds.\<close>

lemmas evaluator_eval =
  eval_nat_numeral Call_def HasMethod_def bind_params_def STR_METHOD_def INIT_METHOD_def
  EMPTY_OBJECT_def Execute_operands_def

lemmas lexer_eval =
  Lexer_tokens_def tokens_after.simps ReadNextToken.simps peek_def ParseToken_def
  IsNum_def IsAlNumLL_def IsAlNum_def IsAlpha_def ParseName_def ReadName_def KeyWords_def
  ParseSpaces_skip_def ParseComment_skip_def CountSpaces_def ParseChar_def DualSymbols_def
  ReadNumber_def ReadString_def stoi_def decimal_value_def digit_value_def INT_MAX_def
  ParseEOF_def ParseIndent_def NextLine_def ReadLine_def less_eq_char_def

section \<open>The bound on the depth is adequate\<close>

text \<open>
  A deeper evaluation repeats every result of a shallower one that is not \<open>OutOfFuel\<close>.
  First each function of the evaluator, for two evaluators of which the second extends
  the first; then \<open>Execute\<close> itself.
\<close>

lemma extendsD:
  "extends ex ex' \<Longrightarrow> ex st c s = (r, c', s') \<Longrightarrow> r \<noteq> Inl OutOfFuel \<Longrightarrow> ex' st c s = (r, c', s')"
  unfolding extends_def by blast

lemma extends_Inr:
  "extends ex ex' \<Longrightarrow> ex st c s = (Inr v, c', s') \<Longrightarrow> ex' st c s = (Inr v, c', s')"
  by (erule extendsD) simp_all

lemma extends_Inl:
  "extends ex ex' \<Longrightarrow> ex st c s = (Inl sig, c', s') \<Longrightarrow> sig \<noteq> OutOfFuel \<Longrightarrow> ex' st c s = (Inl sig, c', s')"
  by (erule extendsD) simp_all

lemma Execute_args_mono:
  assumes "extends ex ex'"
  shows "Execute_args ex args c s = (r, c', s') \<Longrightarrow> r \<noteq> Inl OutOfFuel \<Longrightarrow>
         Execute_args ex' args c s = (r, c', s')"
proof (induction args arbitrary: c s r c' s')
  case Nil
  then show ?case by simp
next
  case (Cons a args)
  obtain r1 c1 s1 where a: "ex a c s = (r1, c1, s1)" by (cases "ex a c s") auto
  show ?case
  proof (cases r1)
    case (Inl sig)
    with a Cons.prems have "sig \<noteq> OutOfFuel" "r = Inl sig" "c' = c1" "s' = s1" by auto
    with a Inl extends_Inl [OF assms] show ?thesis by simp
  next
    case (Inr v)
    with a extends_Inr [OF assms] have a': "ex' a c s = (Inr v, c1, s1)" by simp
    obtain r2 c2 s2 where b: "Execute_args ex args c1 s1 = (r2, c2, s2)"
      by (cases "Execute_args ex args c1 s1") auto
    with a Inr Cons.prems have "r2 \<noteq> Inl OutOfFuel"
      by (auto split: sum.splits)
    from Cons.IH [OF b this] a a' b Inr Cons.prems show ?thesis
      by (auto split: sum.splits)
  qed
qed

lemma Compound_args_mono:
  assumes "extends ex ex'"
  shows "Compound_args ex args c s = (r, c', s') \<Longrightarrow> r \<noteq> Inl OutOfFuel \<Longrightarrow>
         Compound_args ex' args c s = (r, c', s')"
proof (induction args arbitrary: c s r c' s')
  case Nil
  then show ?case by simp
next
  case (Cons a args)
  obtain r1 c1 s1 where a: "ex a c s = (r1, c1, s1)" by (cases "ex a c s") auto
  show ?case
  proof (cases r1)
    case (Inl sig)
    with a Cons.prems have "sig \<noteq> OutOfFuel" "r = Inl sig" "c' = c1" "s' = s1" by auto
    with a Inl extends_Inl [OF assms] show ?thesis by simp
  next
    case (Inr v)
    with a extends_Inr [OF assms] have a': "ex' a c s = (Inr v, c1, s1)" by simp
    from a Inr Cons.prems have "Compound_args ex args c1 s1 = (r, c', s')" by simp
    from Cons.IH [OF this Cons.prems(2)] a' show ?thesis by simp
  qed
qed

lemma Call_mono:
  assumes "extends ex ex'"
  shows "Call ex this cls m acts s = (r, s') \<Longrightarrow> r \<noteq> Inl OutOfFuel \<Longrightarrow>
         Call ex' this cls m acts s = (r, s')"
  using extendsD [OF assms]
  by (auto simp: Call_def Let_def split: if_splits option.splits prod.splits)

lemma Object_Print_primitive:
  "\<not> (\<exists>this cls. obj = ClassInstance this cls) \<Longrightarrow> Object_Print n ex obj s = Object_Print n' ex' obj s"
  by (cases obj) simp_all

lemma Object_Print_mono:
  assumes "extends ex ex'"
  shows "Object_Print n ex obj s = (r, s') \<Longrightarrow> r \<noteq> Inl OutOfFuel \<Longrightarrow>
         Object_Print (Suc n) ex' obj s = (r, s')"
proof (induction n arbitrary: obj s r s')
  case 0
  then show ?case
    by (cases obj) (auto split: if_splits)
next
  case (Suc n)
  show ?case
  proof (cases "\<exists>this cls. obj = ClassInstance this cls")
    case False
    with Suc.prems Object_Print_primitive [OF False, of "Suc (Suc n)" ex' s "Suc n" ex]
    show ?thesis by simp
  next
    case True
    then obtain this cls where obj: "obj = ClassInstance this cls" by blast
    show ?thesis
    proof (cases "HasMethod cls STR_METHOD 0")
      case False
      with Suc.prems obj show ?thesis by simp
    next
      case has: True
      obtain r1 s1 where c: "Call ex this cls STR_METHOD [] s = (r1, s1)"
        by (cases "Call ex this cls STR_METHOD [] s") auto
      show ?thesis
      proof (cases r1)
        case (Inl sig)
        with c has obj Suc.prems have e: "r = Inl sig" "s' = s1" "sig \<noteq> OutOfFuel" by auto
        with c Inl have "Call ex' this cls STR_METHOD [] s = (Inl sig, s1)"
          using Call_mono [OF assms, of this cls STR_METHOD "[]" s "Inl sig" s1] by simp
        with e has obj show ?thesis by simp
      next
        case (Inr h)
        with c have c': "Call ex' this cls STR_METHOD [] s = (Inr h, s1)"
          using Call_mono [OF assms, of this cls STR_METHOD "[]" s "Inr h" s1] by simp
        show ?thesis
        proof (cases "Get h")
          case None
          with c c' Inr has obj Suc.prems show ?thesis by auto
        next
          case (Some o1)
          with c Inr has obj Suc.prems have "Object_Print n ex o1 s1 = (r, s')" by simp
          from Suc.IH [OF this Suc.prems(2)]
          show ?thesis using c' has Some obj by simp
        qed
      qed
    qed
  qed
qed

lemma Print_args_mono:
  assumes "extends ex ex'"
  shows "Print_args n ex args first c s = (r, c', s') \<Longrightarrow> r \<noteq> Inl OutOfFuel \<Longrightarrow>
         Print_args (Suc n) ex' args first c s = (r, c', s')"
proof (induction args arbitrary: first c s r c' s')
  case Nil
  then show ?case by simp
next
  case (Cons a args)
  define s0 where "s0 = (if \<not> first then s\<lparr>output_stream := output_stream s @ '' ''\<rparr> else s)"
  obtain r1 c1 s1 where a: "ex a c s0 = (r1, c1, s1)" by (cases "ex a c s0") auto
  show ?case
  proof (cases r1)
    case (Inl sig)
    with a Cons.prems have e: "sig \<noteq> OutOfFuel" "r = Inl sig" "c' = c1" "s' = s1"
      by (auto simp: s0_def Let_def)
    with a Inl extends_Inl [OF assms] have "ex' a c s0 = (Inl sig, c1, s1)" by simp
    with e show ?thesis by (simp add: s0_def Let_def)
  next
    case (Inr h)
    with a extends_Inr [OF assms] have a': "ex' a c s0 = (Inr h, c1, s1)" by simp
    show ?thesis
    proof (cases "Get h")
      case None
      with a Inr Cons.prems have
        "Print_args n ex args False c1 (s1\<lparr>output_stream := output_stream s1 @ EMPTY_OBJECT\<rparr>) = (r, c', s')"
        by (simp add: s0_def Let_def)
      from Cons.IH [OF this Cons.prems(2)] a' None show ?thesis
        by (simp add: s0_def Let_def)
    next
      case (Some obj)
      obtain r2 s2 where p: "Object_Print n ex obj s1 = (r2, s2)"
        by (cases "Object_Print n ex obj s1") auto
      show ?thesis
      proof (cases r2)
        case (Inl sig)
        with a Inr Some p Cons.prems have e: "sig \<noteq> OutOfFuel" "r = Inl sig" "c' = c1" "s' = s2"
          by (auto simp: s0_def Let_def)
        with p Inl Object_Print_mono [OF assms, of n obj s1 "Inl sig" s2]
        have "Object_Print (Suc n) ex' obj s1 = (Inl sig, s2)" by simp
        with a' Some e show ?thesis by (simp add: s0_def Let_def)
      next
        case (Inr str)
        with p Object_Print_mono [OF assms, of n obj s1 "Inr str" s2]
        have p': "Object_Print (Suc n) ex' obj s1 = (Inr str, s2)" by simp
        from a \<open>r1 = Inr h\<close> Some p Inr Cons.prems have
          "Print_args n ex args False c1 (s2\<lparr>output_stream := output_stream s2 @ str\<rparr>) = (r, c', s')"
          by (simp add: s0_def Let_def)
        from Cons.IH [OF this Cons.prems(2)] a' Some p' show ?thesis
          by (simp add: s0_def Let_def)
      qed
    qed
  qed
qed

lemma Equal_mono:
  assumes "extends ex ex'"
  shows "Equal ex a b s = (r, s') \<Longrightarrow> r \<noteq> Inl OutOfFuel \<Longrightarrow> Equal ex' a b s = (r, s')"
  using Call_mono [OF assms]
  by (fastforce simp: Equal_def split: sum.splits option.splits prod.splits if_splits)

lemma Less_mono:
  assumes "extends ex ex'"
  shows "Less ex a b s = (r, s') \<Longrightarrow> r \<noteq> Inl OutOfFuel \<Longrightarrow> Less ex' a b s = (r, s')"
  using Call_mono [OF assms]
  by (fastforce simp: Less_def split: sum.splits option.splits prod.splits if_splits)

lemma NotEqual_mono:
  assumes "extends ex ex'"
  shows "NotEqual ex a b s = (r, s') \<Longrightarrow> r \<noteq> Inl OutOfFuel \<Longrightarrow> NotEqual ex' a b s = (r, s')"
proof -
  assume p: "NotEqual ex a b s = (r, s')" "r \<noteq> Inl OutOfFuel"
  obtain r1 s1 where e: "Equal ex a b s = (r1, s1)" by (cases "Equal ex a b s") auto
  with p have "r1 \<noteq> Inl OutOfFuel" by (auto simp: NotEqual_def split: sum.splits)
  from Equal_mono [OF assms e this] e p show ?thesis by (auto simp: NotEqual_def)
qed

lemma GreaterOrEqual_mono:
  assumes "extends ex ex'"
  shows "GreaterOrEqual ex a b s = (r, s') \<Longrightarrow> r \<noteq> Inl OutOfFuel \<Longrightarrow> GreaterOrEqual ex' a b s = (r, s')"
proof -
  assume p: "GreaterOrEqual ex a b s = (r, s')" "r \<noteq> Inl OutOfFuel"
  obtain r1 s1 where e: "Less ex a b s = (r1, s1)" by (cases "Less ex a b s") auto
  with p have "r1 \<noteq> Inl OutOfFuel" by (auto simp: GreaterOrEqual_def split: sum.splits)
  from Less_mono [OF assms e this] e p show ?thesis by (auto simp: GreaterOrEqual_def)
qed

lemma Greater_mono:
  assumes "extends ex ex'"
  shows "Greater ex a b s = (r, s') \<Longrightarrow> r \<noteq> Inl OutOfFuel \<Longrightarrow> Greater ex' a b s = (r, s')"
proof -
  assume p: "Greater ex a b s = (r, s')" "r \<noteq> Inl OutOfFuel"
  obtain r1 s1 where l: "Less ex a b s = (r1, s1)" by (cases "Less ex a b s") auto
  show ?thesis
  proof (cases r1)
    case (Inl sig)
    with l p have "r1 \<noteq> Inl OutOfFuel" by (auto simp: Greater_def)
    from Less_mono [OF assms l this] l p Inl show ?thesis by (auto simp: Greater_def)
  next
    case (Inr lt)
    with l Less_mono [OF assms l] have l': "Less ex' a b s = (Inr lt, s1)" by simp
    show ?thesis
    proof (cases lt)
      case True
      with l l' Inr p show ?thesis by (auto simp: Greater_def)
    next
      case False
      obtain r2 s2 where e: "Equal ex a b s1 = (r2, s2)" by (cases "Equal ex a b s1") auto
      with l Inr False p have "r2 \<noteq> Inl OutOfFuel" by (auto simp: Greater_def split: sum.splits)
      from Equal_mono [OF assms e this] e l l' Inr False p show ?thesis by (auto simp: Greater_def)
    qed
  qed
qed

lemma LessOrEqual_mono:
  assumes "extends ex ex'"
  shows "LessOrEqual ex a b s = (r, s') \<Longrightarrow> r \<noteq> Inl OutOfFuel \<Longrightarrow> LessOrEqual ex' a b s = (r, s')"
proof -
  assume p: "LessOrEqual ex a b s = (r, s')" "r \<noteq> Inl OutOfFuel"
  obtain r1 s1 where e: "Greater ex a b s = (r1, s1)" by (cases "Greater ex a b s") auto
  with p have "r1 \<noteq> Inl OutOfFuel" by (auto simp: LessOrEqual_def split: sum.splits)
  from Greater_mono [OF assms e this] e p show ?thesis by (auto simp: LessOrEqual_def)
qed

lemma apply_cmp_mono:
  assumes "extends ex ex'"
  shows "apply_cmp cmp ex a b s = (r, s') \<Longrightarrow> r \<noteq> Inl OutOfFuel \<Longrightarrow> apply_cmp cmp ex' a b s = (r, s')"
  using Equal_mono [OF assms] NotEqual_mono [OF assms] Less_mono [OF assms] Greater_mono [OF assms]
    LessOrEqual_mono [OF assms] GreaterOrEqual_mono [OF assms]
  by (cases cmp) simp_all

lemma Execute_operands_mono:
  assumes "extends ex ex'"
  shows "Execute_operands ex l r c s = (res, c', s') \<Longrightarrow> res \<noteq> Inl OutOfFuel \<Longrightarrow>
         Execute_operands ex' l r c s = (res, c', s')"
proof -
  assume p: "Execute_operands ex l r c s = (res, c', s')" "res \<noteq> Inl OutOfFuel"
  obtain r1 c1 s1 where a: "ex l c s = (r1, c1, s1)" by (cases "ex l c s") auto
  show ?thesis
  proof (cases r1)
    case (Inl sig)
    with a p have "r1 \<noteq> Inl OutOfFuel" by (auto simp: Execute_operands_def)
    from extendsD [OF assms a this] a p Inl show ?thesis by (auto simp: Execute_operands_def)
  next
    case (Inr lv)
    with a extends_Inr [OF assms] have a': "ex' l c s = (Inr lv, c1, s1)" by simp
    obtain r2 c2 s2 where b: "ex r c1 s1 = (r2, c2, s2)" by (cases "ex r c1 s1") auto
    with a Inr p have "r2 \<noteq> Inl OutOfFuel" by (auto simp: Execute_operands_def split: sum.splits)
    from extendsD [OF assms b this] a a' b Inr p show ?thesis by (auto simp: Execute_operands_def)
  qed
qed

lemma Statement_Execute_mono:
  assumes e: "extends ex ex'"
    and p: "Statement_Execute n ex st c s = (r, c', s')" "r \<noteq> Inl OutOfFuel"
  shows "Statement_Execute (Suc n) ex' st c s = (r, c', s')"
proof (cases st)
  case (NumericConst x)
  with p show ?thesis by simp
next
  case (StringConst x)
  with p show ?thesis by simp
next
  case (BoolConst x)
  with p show ?thesis by simp
next
  case None_stmt
  with p show ?thesis by simp
next
  case (VariableValue x y)
  with p show ?thesis by simp
next
  case (Assignment var rv)
  with p show ?thesis
    by (auto split: prod.splits sum.splits dest: extends_Inr [OF e] extends_Inl [OF e])
next
  case (FieldAssignment v t f rv)
  with p show ?thesis
    by (auto split: prod.splits sum.splits option.splits dest: extends_Inr [OF e] extends_Inl [OF e])
next
  case (Print args)
  obtain r1 c1 s1 where a: "Print_args n ex args True c s = (r1, c1, s1)"
    by (cases "Print_args n ex args True c s") auto
  with p Print have "r1 \<noteq> Inl OutOfFuel" by (auto split: sum.splits)
  from Print_args_mono [OF e a this] a p Print show ?thesis by auto
next
  case (MethodCall object m args)
  obtain r1 c1 s1 where a: "ex object c s = (r1, c1, s1)" by (cases "ex object c s") auto
  show ?thesis
  proof (cases r1)
    case (Inl sig)
    with a p MethodCall have "r1 \<noteq> Inl OutOfFuel" by auto
    from extendsD [OF e a this] a Inl p MethodCall show ?thesis by auto
  next
    case (Inr h)
    with a extends_Inr [OF e] have a': "ex' object c s = (Inr h, c1, s1)" by simp
    show ?thesis
    proof (cases "TryAs_ClassInstance h")
      case None
      with a a' Inr p MethodCall show ?thesis by auto
    next
      case (Some ic)
      obtain this cls where ic: "ic = (this, cls)" by (cases ic)
      obtain r2 c2 s2 where b: "Execute_args ex args c1 s1 = (r2, c2, s2)"
        by (cases "Execute_args ex args c1 s1") auto
      show ?thesis
      proof (cases r2)
        case (Inl sig)
        with a Inr Some ic b p MethodCall have "r2 \<noteq> Inl OutOfFuel" by auto
        from Execute_args_mono [OF e b this] a a' \<open>r1 = Inr h\<close> Some ic b Inl p MethodCall
        show ?thesis by auto
      next
        case (Inr acts)
        with b Execute_args_mono [OF e b] have b': "Execute_args ex' args c1 s1 = (Inr acts, c2, s2)"
          by simp
        obtain r3 s3 where cl: "Call ex this cls m acts s2 = (r3, s3)"
          by (cases "Call ex this cls m acts s2") auto
        with a \<open>r1 = Inr h\<close> Some ic b Inr p MethodCall have "r3 = r" "c2 = c'" "s3 = s'" by auto
        with Call_mono [OF e cl] p(2) a' Some ic b' MethodCall show ?thesis by auto
      qed
    qed
  qed
next
  case (Stringify arg)
  obtain r1 c1 s1 where a: "ex arg c s = (r1, c1, s1)" by (cases "ex arg c s") auto
  show ?thesis
  proof (cases r1)
    case (Inl sig)
    with a p Stringify have "r1 \<noteq> Inl OutOfFuel" by auto
    from extendsD [OF e a this] a Inl p Stringify show ?thesis by auto
  next
    case (Inr h)
    with a extends_Inr [OF e] have a': "ex' arg c s = (Inr h, c1, s1)" by simp
    show ?thesis
    proof (cases "Get h")
      case None
      with a a' Inr p Stringify show ?thesis by auto
    next
      case (Some obj)
      obtain r2 s2 where b: "Object_Print n ex obj s1 = (r2, s2)"
        by (cases "Object_Print n ex obj s1") auto
      with a Inr Some p Stringify have "r2 \<noteq> Inl OutOfFuel" by (auto split: sum.splits)
      from Object_Print_mono [OF e b this] a a' Inr Some b p Stringify show ?thesis
        by (auto split: sum.splits)
    qed
  qed
next
  case (Add l r')
  obtain r1 c1 s1 where a: "Execute_operands ex l r' c s = (r1, c1, s1)"
    by (cases "Execute_operands ex l r' c s") auto
  show ?thesis
  proof (cases r1)
    case (Inl sig)
    with a p Add have "r1 \<noteq> Inl OutOfFuel" by auto
    from Execute_operands_mono [OF e a this] a Inl p Add show ?thesis by auto
  next
    case (Inr lr)
    with a Execute_operands_mono [OF e a] have a': "Execute_operands ex' l r' c s = (Inr lr, c1, s1)"
      by simp
    obtain lv rv where lr: "lr = (lv, rv)" by (cases lr)
    show ?thesis
    proof (cases "BINARY_OPERATION_Number (+) lv rv = None \<and> BINARY_OPERATION_String (@) lv rv = None
                  \<and> TryAs_ClassInstance lv \<noteq> None")
      case False
      with a a' Inr lr p Add show ?thesis by (auto split: option.splits)
    next
      case True
      then obtain this cls where ic: "TryAs_ClassInstance lv = Some (this, cls)" by auto
      obtain r3 s3 where cl: "Call ex this cls ADD_METHOD [rv] s1 = (r3, s3)"
        by (cases "Call ex this cls ADD_METHOD [rv] s1") auto
      with a Inr lr True ic p Add have "r3 = r" "c1 = c'" "s3 = s'" by auto
      with Call_mono [OF e cl] p(2) a' lr True ic Add show ?thesis by auto
    qed
  qed
next
  case (Sub l r')
  obtain r1 c1 s1 where a: "Execute_operands ex l r' c s = (r1, c1, s1)"
    by (cases "Execute_operands ex l r' c s") auto
  with p Sub have "r1 \<noteq> Inl OutOfFuel" by (auto split: sum.splits)
  from Execute_operands_mono [OF e a this] a p Sub show ?thesis by auto
next
  case (Mult l r')
  obtain r1 c1 s1 where a: "Execute_operands ex l r' c s = (r1, c1, s1)"
    by (cases "Execute_operands ex l r' c s") auto
  with p Mult have "r1 \<noteq> Inl OutOfFuel" by (auto split: sum.splits)
  from Execute_operands_mono [OF e a this] a p Mult show ?thesis by auto
next
  case (Div l r')
  obtain r1 c1 s1 where a: "Execute_operands ex l r' c s = (r1, c1, s1)"
    by (cases "Execute_operands ex l r' c s") auto
  with p Div have "r1 \<noteq> Inl OutOfFuel" by (auto split: sum.splits)
  from Execute_operands_mono [OF e a this] a p Div show ?thesis by auto
next
  case (Compound args)
  obtain r1 c1 s1 where a: "Compound_args ex args c s = (r1, c1, s1)"
    by (cases "Compound_args ex args c s") auto
  with p Compound have "r1 \<noteq> Inl OutOfFuel" by (auto split: sum.splits)
  from Compound_args_mono [OF e a this] a p Compound show ?thesis by auto
next
  case (Return x)
  with p show ?thesis
    by (auto split: prod.splits sum.splits dest: extends_Inr [OF e] extends_Inl [OF e])
next
  case (ClassDefinition x)
  with p show ?thesis by simp
next
  case (IfElse cond a b)
  obtain r1 c1 s1 where cnd: "ex cond c s = (r1, c1, s1)" by (cases "ex cond c s") auto
  show ?thesis
  proof (cases r1)
    case (Inl sig)
    with cnd p IfElse have "r1 \<noteq> Inl OutOfFuel" by auto
    from extendsD [OF e cnd this] cnd Inl p IfElse show ?thesis by auto
  next
    case (Inr v)
    with cnd extends_Inr [OF e] have c': "ex' cond c s = (Inr v, c1, s1)" by simp
    with cnd Inr p IfElse extendsD [OF e, of _ c1 s1 r c' s'] show ?thesis
      by (auto split: option.splits)
  qed
next
  case (Or l r')
  obtain r1 c1 s1 where a: "ex l c s = (r1, c1, s1)" by (cases "ex l c s") auto
  show ?thesis
  proof (cases r1)
    case (Inl sig)
    with a p Or have "r1 \<noteq> Inl OutOfFuel" by auto
    from extendsD [OF e a this] a Inl p Or show ?thesis by auto
  next
    case (Inr v)
    with a extends_Inr [OF e] have a': "ex' l c s = (Inr v, c1, s1)" by simp
    with a Inr p Or show ?thesis
      by (auto split: prod.splits sum.splits dest: extends_Inr [OF e] extends_Inl [OF e])
  qed
next
  case (And l r')
  obtain r1 c1 s1 where a: "ex l c s = (r1, c1, s1)" by (cases "ex l c s") auto
  show ?thesis
  proof (cases r1)
    case (Inl sig)
    with a p And have "r1 \<noteq> Inl OutOfFuel" by auto
    from extendsD [OF e a this] a Inl p And show ?thesis by auto
  next
    case (Inr v)
    with a extends_Inr [OF e] have a': "ex' l c s = (Inr v, c1, s1)" by simp
    with a Inr p And show ?thesis
      by (auto split: prod.splits sum.splits dest: extends_Inr [OF e] extends_Inl [OF e])
  qed
next
  case (Not_stmt x)
  with p show ?thesis
    by (auto split: prod.splits sum.splits dest: extends_Inr [OF e] extends_Inl [OF e])
next
  case (Comparison cmp l r')
  obtain r1 c1 s1 where a: "Execute_operands ex l r' c s = (r1, c1, s1)"
    by (cases "Execute_operands ex l r' c s") auto
  show ?thesis
  proof (cases r1)
    case (Inl sig)
    with a p Comparison have "r1 \<noteq> Inl OutOfFuel" by auto
    from Execute_operands_mono [OF e a this] a Inl p Comparison show ?thesis by auto
  next
    case (Inr lr)
    with a Execute_operands_mono [OF e a] have a': "Execute_operands ex' l r' c s = (Inr lr, c1, s1)"
      by simp
    obtain lv rv where lr: "lr = (lv, rv)" by (cases lr)
    obtain r3 s3 where cm: "apply_cmp cmp ex lv rv s1 = (r3, s3)"
      by (cases "apply_cmp cmp ex lv rv s1") auto
    with a Inr lr p Comparison have "r3 \<noteq> Inl OutOfFuel" by (auto split: sum.splits)
    from apply_cmp_mono [OF e cm this] a a' Inr lr cm p Comparison show ?thesis
      by (auto split: sum.splits)
  qed
next
  case (NewInstance this cls args)
  show ?thesis
  proof (cases "HasMethod cls INIT_METHOD (length args)")
    case False
    with p NewInstance show ?thesis by simp
  next
    case True
    obtain r2 c2 s2 where b: "Execute_args ex args c s = (r2, c2, s2)"
      by (cases "Execute_args ex args c s") auto
    show ?thesis
    proof (cases r2)
      case (Inl sig)
      with True b p NewInstance have "r2 \<noteq> Inl OutOfFuel" by auto
      from Execute_args_mono [OF e b this] True b Inl p NewInstance show ?thesis by auto
    next
      case (Inr acts)
      with b Execute_args_mono [OF e b] have b': "Execute_args ex' args c s = (Inr acts, c2, s2)"
        by simp
      obtain r3 s3 where cl: "Call ex this cls INIT_METHOD acts s2 = (r3, s3)"
        by (cases "Call ex this cls INIT_METHOD acts s2") auto
      with True b Inr p NewInstance have "r3 \<noteq> Inl OutOfFuel" by (auto split: sum.splits)
      from Call_mono [OF e cl this] True b b' Inr cl p NewInstance show ?thesis
        by (auto split: sum.splits)
    qed
  qed
next
  case (MethodBody body)
  obtain r1 c1 s1 where a: "ex body c s = (r1, c1, s1)" by (cases "ex body c s") auto
  with p MethodBody have "r1 \<noteq> Inl OutOfFuel" by (auto split: sum.splits Signal.splits)
  from extendsD [OF e a this] a p MethodBody show ?thesis by auto
qed

lemma Execute_Suc:
  "Execute n st c s = (r, c', s') \<Longrightarrow> r \<noteq> Inl OutOfFuel \<Longrightarrow> Execute (Suc n) st c s = (r, c', s')"
proof (induction n arbitrary: st c s r c' s')
  case 0
  then show ?case by simp
next
  case (Suc n)
  have "extends (Execute n) (Execute (Suc n))"
    unfolding extends_def using Suc.IH by blast
  from Statement_Execute_mono [OF this] Suc.prems show ?case by simp
qed

lemma Execute_mono:
  assumes "n \<le> m" and "Execute n st c s = (r, c', s')" and "r \<noteq> Inl OutOfFuel"
  shows "Execute m st c s = (r, c', s')"
  using assms
proof (induction rule: dec_induct)
  case base
  then show ?case by simp
next
  case (step k)
  from Execute_Suc [OF step.IH [OF step.prems] step.prems(2)] show ?case .
qed

lemma extends_Execute: "n \<le> m \<Longrightarrow> extends (Execute n) (Execute m)"
  unfolding extends_def using Execute_mono by blast

lemma Object_Print_le:
  assumes "n \<le> m" and "Object_Print n (Execute n) obj s = (r, s')" and "r \<noteq> Inl OutOfFuel"
  shows "Object_Print m (Execute m) obj s = (r, s')"
  using assms
proof (induction rule: dec_induct)
  case base
  then show ?case by simp
next
  case (step k)
  have "extends (Execute k) (Execute (Suc k))" by (rule extends_Execute) simp
  from Object_Print_mono [OF this step.IH [OF step.prems] step.prems(2)] show ?case .
qed

lemma evaluatesI: "Execute n st c s = res \<Longrightarrow> fst res \<noteq> Inl OutOfFuel \<Longrightarrow> evaluates st c s res"
  unfolding evaluates_def by blast

lemma evaluates_not_OutOfFuel: "evaluates st c s res \<Longrightarrow> fst res \<noteq> Inl OutOfFuel"
  unfolding evaluates_def by blast

lemma evaluates_from:
  assumes "evaluates st c s res"
  shows "\<exists>n. \<forall>m\<ge>n. Execute m st c s = res"
proof -
  from assms obtain n where n: "Execute n st c s = res" "fst res \<noteq> Inl OutOfFuel"
    unfolding evaluates_def by blast
  have "Execute m st c s = res" if "n \<le> m" for m
    using Execute_mono [OF that, of st c s "fst res" "fst (snd res)" "snd (snd res)"] n by simp
  then show ?thesis by blast
qed

lemma evaluates_args_from:
  assumes "evaluates_args args c s res"
  shows "\<exists>n. \<forall>m\<ge>n. Execute_args (Execute m) args c s = res"
proof -
  from assms obtain n where n: "Execute_args (Execute n) args c s = res" "fst res \<noteq> Inl OutOfFuel"
    unfolding evaluates_args_def by blast
  have "Execute_args (Execute m) args c s = res" if "n \<le> m" for m
    using Execute_args_mono [OF extends_Execute [OF that], of args c s "fst res" "fst (snd res)" "snd (snd res)"] n
    by simp
  then show ?thesis by blast
qed

text \<open>An evaluation has one result.\<close>

lemma evaluates_unique:
  assumes "evaluates st c s res" and "evaluates st c s res'"
  shows "res = res'"
proof -
  from evaluates_from [OF assms(1)] obtain n where n: "\<forall>m\<ge>n. Execute m st c s = res" by blast
  from evaluates_from [OF assms(2)] obtain n' where n': "\<forall>m\<ge>n'. Execute m st c s = res'" by blast
  have "n \<le> max n n'" "n' \<le> max n n'" by simp_all
  with n n' have "Execute (max n n') st c s = res" "Execute (max n n') st c s = res'" by blast+
  then show ?thesis by simp
qed

lemma evaluates_two:
  assumes "evaluates a c s ra" and "evaluates b c' s' rb"
  shows "\<exists>n. Execute n a c s = ra \<and> Execute n b c' s' = rb"
proof -
  from evaluates_from [OF assms(1)] obtain n1 where n1: "\<forall>m\<ge>n1. Execute m a c s = ra" by blast
  from evaluates_from [OF assms(2)] obtain n2 where n2: "\<forall>m\<ge>n2. Execute m b c' s' = rb" by blast
  have "n1 \<le> max n1 n2" "n2 \<le> max n1 n2" by simp_all
  with n1 n2 have "Execute (max n1 n2) a c s = ra" "Execute (max n1 n2) b c' s' = rb" by blast+
  then show ?thesis by blast
qed

text \<open>
  Two evaluations that agree from some depth on, each at its own offset, have the same
  results.
\<close>

lemma evaluates_cong:
  assumes "\<And>n. N \<le> n \<Longrightarrow> Execute (f n) a c s = Execute (g n) b c' s'"
    and "\<And>n. n \<le> f n" and "\<And>n. n \<le> g n"
  shows "evaluates a c s res \<longleftrightarrow> evaluates b c' s' res"
proof
  assume l: "evaluates a c s res"
  from evaluates_from [OF l] obtain K where K: "\<forall>m\<ge>K. Execute m a c s = res" by blast
  have "K \<le> f (max N K)" using assms(2) [of "max N K"] by simp
  with K have "Execute (f (max N K)) a c s = res" by blast
  with assms(1) [of "max N K"] have "Execute (g (max N K)) b c' s' = res" by simp
  then show "evaluates b c' s' res"
    using evaluates_not_OutOfFuel [OF l] by (rule evaluatesI)
next
  assume r: "evaluates b c' s' res"
  from evaluates_from [OF r] obtain K where K: "\<forall>m\<ge>K. Execute m b c' s' = res" by blast
  have "K \<le> g (max N K)" using assms(3) [of "max N K"] by simp
  with K have "Execute (g (max N K)) b c' s' = res" by blast
  with assms(1) [of "max N K"] have "Execute (f (max N K)) a c s = res" by simp
  then show "evaluates a c s res"
    using evaluates_not_OutOfFuel [OF r] by (rule evaluatesI)
qed

text \<open>
  The loops over a list of statements, when the statements of a prefix return and the next
  one throws.
\<close>

lemma Execute_args_append_throw:
  "Execute_args ex pre c s = (Inr vs, c1, s1) \<Longrightarrow> ex a c1 s1 = (Inl sig, c', s') \<Longrightarrow>
   Execute_args ex (pre @ a # rest) c s = (Inl sig, c', s')"
proof (induction pre arbitrary: c s vs)
  case Nil
  then show ?case by simp
next
  case (Cons p pre)
  from Cons.prems(1) obtain v ca sa vs' where
    p: "ex p c s = (Inr v, ca, sa)" and r: "Execute_args ex pre ca sa = (Inr vs', c1, s1)"
    by (auto split: prod.splits sum.splits)
  from Cons.IH [OF r Cons.prems(2)] p show ?case by simp
qed

lemma Compound_args_append_throw:
  "Compound_args ex pre c s = (Inr u, c1, s1) \<Longrightarrow> ex a c1 s1 = (Inl sig, c', s') \<Longrightarrow>
   Compound_args ex (pre @ a # rest) c s = (Inl sig, c', s')"
proof (induction pre arbitrary: c s)
  case Nil
  then show ?case by simp
next
  case (Cons p pre)
  from Cons.prems(1) obtain v ca sa where
    p: "ex p c s = (Inr v, ca, sa)" and r: "Compound_args ex pre ca sa = (Inr u, c1, s1)"
    by (auto split: prod.splits sum.splits)
  from Cons.IH [OF r Cons.prems(2)] p show ?case by simp
qed

lemma Print_args_append_throw:
  "Print_args n ex pre first c s = (Inr u, c1, s1) \<Longrightarrow>
   ex a c1 (if first \<and> pre = [] then s1 else s1\<lparr>output_stream := output_stream s1 @ '' ''\<rparr>)
     = (Inl sig, c', s') \<Longrightarrow>
   Print_args n ex (pre @ a # rest) first c s = (Inl sig, c', s')"
proof (induction pre arbitrary: first c s)
  case Nil
  then show ?case by (cases first) simp_all
next
  case (Cons p pre)
  let ?s0 = "if \<not> first then s\<lparr>output_stream := output_stream s @ '' ''\<rparr> else s"
  from Cons.prems(1) obtain ca sa where
    r: "Print_args n ex pre False ca sa = (Inr u, c1, s1)"
    and p: "Print_args n ex (p # pre @ a # rest) first c s = Print_args n ex (pre @ a # rest) False ca sa"
    by (cases "ex p c ?s0") (auto simp: Let_def split: prod.splits sum.splits option.splits)
  from Cons.prems(2) have "ex a c1 (if False \<and> pre = [] then s1 else s1\<lparr>output_stream := output_stream s1 @ '' ''\<rparr>)
     = (Inl sig, c', s')" by simp
  from Cons.IH [OF r this] p show ?case by simp
qed

lemma Print_args_le:
  assumes "n \<le> m" and "Print_args n (Execute n) args first c s = (r, c', s')" and "r \<noteq> Inl OutOfFuel"
  shows "Print_args m (Execute m) args first c s = (r, c', s')"
  using assms
proof (induction rule: dec_induct)
  case base
  then show ?case by simp
next
  case (step k)
  have e: "extends (Execute k) (Execute (Suc k))" by (rule extends_Execute) simp
  from step.IH [OF step.prems] have "Print_args k (Execute k) args first c s = (r, c', s')" .
  from e this step.prems(2) show ?case by (rule Print_args_mono)
qed

lemma evaluates_print_from:
  assumes "evaluates_print args first c s res"
  shows "\<exists>n. \<forall>m\<ge>n. Print_args m (Execute m) args first c s = res"
proof -
  from assms obtain n where n: "Print_args n (Execute n) args first c s = res" "fst res \<noteq> Inl OutOfFuel"
    unfolding evaluates_print_def by blast
  have "Print_args m (Execute m) args first c s = res" if "n \<le> m" for m
    using Print_args_le [OF that, of args first c s "fst res" "fst (snd res)" "snd (snd res)"] n by simp
  then show ?thesis by blast
qed

text \<open>Evaluations that end have a depth in common.\<close>

lemma evaluates_args_two:
  assumes "evaluates_args args c s ra" and "evaluates b c' s' rb"
  shows "\<exists>n. Execute_args (Execute n) args c s = ra \<and> Execute n b c' s' = rb"
proof -
  from evaluates_args_from [OF assms(1)] obtain n1 where
    n1: "\<forall>m\<ge>n1. Execute_args (Execute m) args c s = ra" by blast
  from evaluates_from [OF assms(2)] obtain n2 where n2: "\<forall>m\<ge>n2. Execute m b c' s' = rb" by blast
  have "n1 \<le> max n1 n2" "n2 \<le> max n1 n2" by simp_all
  with n1 n2 have "Execute_args (Execute (max n1 n2)) args c s = ra" "Execute (max n1 n2) b c' s' = rb"
    by blast+
  then show ?thesis by blast
qed

lemma evaluates_print_two:
  assumes "evaluates_print args first c s ra" and "evaluates b c' s' rb"
  shows "\<exists>n. Print_args n (Execute n) args first c s = ra \<and> Execute n b c' s' = rb"
proof -
  from evaluates_print_from [OF assms(1)] obtain n1 where
    n1: "\<forall>m\<ge>n1. Print_args m (Execute m) args first c s = ra" by blast
  from evaluates_from [OF assms(2)] obtain n2 where n2: "\<forall>m\<ge>n2. Execute m b c' s' = rb" by blast
  have "n1 \<le> max n1 n2" "n2 \<le> max n1 n2" by simp_all
  with n1 n2 have "Print_args (max n1 n2) (Execute (max n1 n2)) args first c s = ra"
    "Execute (max n1 n2) b c' s' = rb"
    by blast+
  then show ?thesis by blast
qed

lemma evaluates_three:
  assumes "evaluates a c s ra" and "evaluates_args args c' s' rb" and "evaluates b c'' s'' rc"
  shows "\<exists>n. Execute n a c s = ra \<and> Execute_args (Execute n) args c' s' = rb \<and> Execute n b c'' s'' = rc"
proof -
  from evaluates_from [OF assms(1)] obtain n1 where n1: "\<forall>m\<ge>n1. Execute m a c s = ra" by blast
  from evaluates_args_from [OF assms(2)] obtain n2 where
    n2: "\<forall>m\<ge>n2. Execute_args (Execute m) args c' s' = rb" by blast
  from evaluates_from [OF assms(3)] obtain n3 where n3: "\<forall>m\<ge>n3. Execute m b c'' s'' = rc" by blast
  define N where "N = max n1 (max n2 n3)"
  have "n1 \<le> N" "n2 \<le> N" "n3 \<le> N" by (simp_all add: N_def)
  with n1 n2 n3 have "Execute N a c s = ra" "Execute_args (Execute N) args c' s' = rb"
    "Execute N b c'' s'' = rc"
    by blast+
  then show ?thesis by blast
qed

section \<open>Properties of the evaluator\<close>

text \<open>
  Claim C3. \<^verbatim>\<open>Or\<close> and \<^verbatim>\<open>And\<close> return an owning holder of a \<^verbatim>\<open>Bool\<close> that carries
  the truthiness of the last operand evaluated: \<^verbatim>\<open>Or\<close> gives \<open>Bool True\<close> when the left
  operand is truthy and otherwise the truthiness of the right one; \<^verbatim>\<open>And\<close> gives
  \<open>Bool False\<close> when the left operand is falsy and otherwise the truthiness of the right
  one. Whatever the operands, a value returned by either node is an owning \<^verbatim>\<open>Bool\<close>
  holder, and \<^verbatim>\<open>0 or "fallback"\<close> is \<open>Bool True\<close>, not the string.
\<close>

theorem Or_And_result:
  "(\<forall>lv c1 s1. evaluates l c s (Inr lv, c1, s1) \<and> IsTrue lv \<longrightarrow>
       evaluates (Or l r) c s (Inr (Own (Bool True)), c1, s1))
 \<and> (\<forall>lv c1 s1 rv c2 s2.
       evaluates l c s (Inr lv, c1, s1) \<and> \<not> IsTrue lv \<and> evaluates r c1 s1 (Inr rv, c2, s2) \<longrightarrow>
       evaluates (Or l r) c s (Inr (Own (Bool (IsTrue rv))), c2, s2))
 \<and> (\<forall>lv c1 s1. evaluates l c s (Inr lv, c1, s1) \<and> \<not> IsTrue lv \<longrightarrow>
       evaluates (And l r) c s (Inr (Own (Bool False)), c1, s1))
 \<and> (\<forall>lv c1 s1 rv c2 s2.
       evaluates l c s (Inr lv, c1, s1) \<and> IsTrue lv \<and> evaluates r c1 s1 (Inr rv, c2, s2) \<longrightarrow>
       evaluates (And l r) c s (Inr (Own (Bool (IsTrue rv))), c2, s2))
 \<and> (\<forall>h c' s'. evaluates (Or l r) c s (Inr h, c', s') \<or> evaluates (And l r) c s (Inr h, c', s') \<longrightarrow>
       (\<exists>b. h = Own (Bool b)))
 \<and> evaluates (Or (NumericConst 0) (StringConst ''fallback'')) c s (Inr (Own (Bool True)), c, s)"
proof (intro conjI allI impI)
  fix lv c1 s1
  assume "evaluates l c s (Inr lv, c1, s1) \<and> IsTrue lv"
  then obtain n where "Execute n l c s = (Inr lv, c1, s1)" "IsTrue lv"
    unfolding evaluates_def by blast
  then have "Execute (Suc n) (Or l r) c s = (Inr (Own (Bool True)), c1, s1)" by simp
  then show "evaluates (Or l r) c s (Inr (Own (Bool True)), c1, s1)"
    by (rule evaluatesI) simp
next
  fix lv c1 s1
  assume "evaluates l c s (Inr lv, c1, s1) \<and> \<not> IsTrue lv"
  then obtain n where "Execute n l c s = (Inr lv, c1, s1)" "\<not> IsTrue lv"
    unfolding evaluates_def by blast
  then have "Execute (Suc n) (And l r) c s = (Inr (Own (Bool False)), c1, s1)" by simp
  then show "evaluates (And l r) c s (Inr (Own (Bool False)), c1, s1)"
    by (rule evaluatesI) simp
next
  fix lv c1 s1 rv c2 s2
  assume a: "evaluates l c s (Inr lv, c1, s1) \<and> \<not> IsTrue lv \<and> evaluates r c1 s1 (Inr rv, c2, s2)"
  from a evaluates_two [of l c s _ r c1 s1] obtain n where
    "Execute n l c s = (Inr lv, c1, s1)" "Execute n r c1 s1 = (Inr rv, c2, s2)" by blast
  with a have "Execute (Suc n) (Or l r) c s = (Inr (Own (Bool (IsTrue rv))), c2, s2)" by simp
  then show "evaluates (Or l r) c s (Inr (Own (Bool (IsTrue rv))), c2, s2)"
    by (rule evaluatesI) simp
next
  fix lv c1 s1 rv c2 s2
  assume a: "evaluates l c s (Inr lv, c1, s1) \<and> IsTrue lv \<and> evaluates r c1 s1 (Inr rv, c2, s2)"
  from a evaluates_two [of l c s _ r c1 s1] obtain n where
    "Execute n l c s = (Inr lv, c1, s1)" "Execute n r c1 s1 = (Inr rv, c2, s2)" by blast
  with a have "Execute (Suc n) (And l r) c s = (Inr (Own (Bool (IsTrue rv))), c2, s2)" by simp
  then show "evaluates (And l r) c s (Inr (Own (Bool (IsTrue rv))), c2, s2)"
    by (rule evaluatesI) simp
next
  fix h c' s'
  assume "evaluates (Or l r) c s (Inr h, c', s') \<or> evaluates (And l r) c s (Inr h, c', s')"
  then obtain k where
    "Execute k (Or l r) c s = (Inr h, c', s') \<or> Execute k (And l r) c s = (Inr h, c', s')"
    unfolding evaluates_def by blast
  then show "\<exists>b. h = Own (Bool b)"
    by (cases k) (auto split: prod.splits sum.splits if_splits)
next
  have "Execute (Suc (Suc 0)) (Or (NumericConst 0) (StringConst ''fallback'')) c s
      = (Inr (Own (Bool True)), c, s)"
    by simp
  then show "evaluates (Or (NumericConst 0) (StringConst ''fallback'')) c s (Inr (Own (Bool True)), c, s)"
    by (rule evaluatesI) simp
qed

theorem Or_And_result_witness:
  "evaluates (Or (NumericConst 0) (StringConst ''fallback'')) Map.empty initial_State
     (Inr (Own (Bool True)), Map.empty, initial_State)
 \<and> evaluates (Or (NumericConst 3) (StringConst [])) Map.empty initial_State
     (Inr (Own (Bool True)), Map.empty, initial_State)
 \<and> evaluates (And (NumericConst 5) (StringConst [])) Map.empty initial_State
     (Inr (Own (Bool False)), Map.empty, initial_State)
 \<and> evaluates (And None_stmt (StringConst ''x'')) Map.empty initial_State
     (Inr (Own (Bool False)), Map.empty, initial_State)
 \<and> Execute 2 (Or (NumericConst 0) (StringConst ''fallback'')) Map.empty initial_State
     = (Inr (Own (Bool True)), Map.empty, initial_State)"
proof -
  have l0: "evaluates (NumericConst 0) Map.empty initial_State (Inr (Share (Number 0)), Map.empty, initial_State)"
    and l3: "evaluates (NumericConst 3) Map.empty initial_State (Inr (Share (Number 3)), Map.empty, initial_State)"
    and l5: "evaluates (NumericConst 5) Map.empty initial_State (Inr (Share (Number 5)), Map.empty, initial_State)"
    and ln: "evaluates None_stmt Map.empty initial_State (Inr Empty, Map.empty, initial_State)"
    and rf: "evaluates (StringConst ''fallback'') Map.empty initial_State (Inr (Share (String ''fallback'')), Map.empty, initial_State)"
    and re: "evaluates (StringConst []) Map.empty initial_State (Inr (Share (String [])), Map.empty, initial_State)"
    by (rule evaluatesI [of 1]; simp)+
  have t: "\<not> IsTrue (Share (Number 0))" "IsTrue (Share (Number 3))" "IsTrue (Share (Number 5))"
    "\<not> IsTrue Empty" "IsTrue (Share (String ''fallback'')) = True" "IsTrue (Share (String [])) = False"
    by simp_all
  note a = Or_And_result [of "NumericConst 0" Map.empty initial_State "StringConst ''fallback''"]
  note b = Or_And_result [of "NumericConst 3" Map.empty initial_State "StringConst []"]
  note c = Or_And_result [of "NumericConst 5" Map.empty initial_State "StringConst []"]
  note d = Or_And_result [of None_stmt Map.empty initial_State "StringConst ''x''"]
  from a [THEN conjunct2, THEN conjunct1, rule_format, OF conjI [OF l0 conjI [OF t(1) rf]]]
  have 1: "evaluates (Or (NumericConst 0) (StringConst ''fallback'')) Map.empty initial_State
     (Inr (Own (Bool True)), Map.empty, initial_State)" by (simp only: t(5))
  from b [THEN conjunct1, rule_format, OF conjI [OF l3 t(2)]]
  have 2: "evaluates (Or (NumericConst 3) (StringConst [])) Map.empty initial_State
     (Inr (Own (Bool True)), Map.empty, initial_State)" .
  from c [THEN conjunct2, THEN conjunct2, THEN conjunct2, THEN conjunct1, rule_format,
          OF conjI [OF l5 conjI [OF t(3) re]]]
  have 3: "evaluates (And (NumericConst 5) (StringConst [])) Map.empty initial_State
     (Inr (Own (Bool False)), Map.empty, initial_State)" by (simp only: t(6))
  from d [THEN conjunct2, THEN conjunct2, THEN conjunct1, rule_format, OF conjI [OF ln t(4)]]
  have 4: "evaluates (And None_stmt (StringConst ''x'')) Map.empty initial_State
     (Inr (Own (Bool False)), Map.empty, initial_State)" .
  have 5: "Execute 2 (Or (NumericConst 0) (StringConst ''fallback'')) Map.empty initial_State
     = (Inr (Own (Bool True)), Map.empty, initial_State)"
    by (simp add: numeral_2_eq_2)
  from 1 2 3 4 5 show ?thesis by (intro conjI)
qed

text \<open>
  Claim C4. When the left operand of \<^verbatim>\<open>And\<close> is falsy, or that of \<^verbatim>\<open>Or\<close> truthy, the
  node evaluates to a result whose closure and state (instance fields and output) are
  those the left operand left, whatever the right operand is: the right operand is not
  evaluated, so none of its effects occur.
\<close>

theorem short_circuit:
  "(\<forall>lv c1 s1. evaluates l c s (Inr lv, c1, s1) \<and> \<not> IsTrue lv \<longrightarrow>
      (\<forall>r. evaluates (And l r) c s (Inr (Own (Bool False)), c1, s1)))
 \<and> (\<forall>lv c1 s1. evaluates l c s (Inr lv, c1, s1) \<and> IsTrue lv \<longrightarrow>
      (\<forall>r. evaluates (Or l r) c s (Inr (Own (Bool True)), c1, s1)))"
proof (intro conjI allI impI)
  fix lv c1 s1 r
  assume "evaluates l c s (Inr lv, c1, s1) \<and> \<not> IsTrue lv"
  then obtain n where "Execute n l c s = (Inr lv, c1, s1)" "\<not> IsTrue lv"
    unfolding evaluates_def by blast
  then have "Execute (Suc n) (And l r) c s = (Inr (Own (Bool False)), c1, s1)" by simp
  then show "evaluates (And l r) c s (Inr (Own (Bool False)), c1, s1)"
    by (rule evaluatesI) simp
next
  fix lv c1 s1 r
  assume "evaluates l c s (Inr lv, c1, s1) \<and> IsTrue lv"
  then obtain n where "Execute n l c s = (Inr lv, c1, s1)" "IsTrue lv"
    unfolding evaluates_def by blast
  then have "Execute (Suc n) (Or l r) c s = (Inr (Own (Bool True)), c1, s1)" by simp
  then show "evaluates (Or l r) c s (Inr (Own (Bool True)), c1, s1)"
    by (rule evaluatesI) simp
qed

theorem short_circuit_witness:
  "evaluates (And (NumericConst 0) (Print [StringConst ''x''])) Map.empty initial_State
     (Inr (Own (Bool False)), Map.empty, initial_State)
 \<and> evaluates (Or (StringConst ''a'') (Assignment ''y'' (NumericConst 2))) Map.empty initial_State
     (Inr (Own (Bool True)), Map.empty, initial_State)
 \<and> evaluates (Print [StringConst ''x'']) Map.empty initial_State
     (Inr Empty, Map.empty, initial_State\<lparr>output_stream := ''x'' @ [CHR 0x0A]\<rparr>)
 \<and> evaluates (Assignment ''y'' (NumericConst 2)) Map.empty initial_State
     (Inr (Share (Number 2)), Map.empty(''y'' \<mapsto> Share (Number 2)), initial_State)"
proof -
  have l0: "evaluates (NumericConst 0) Map.empty initial_State (Inr (Share (Number 0)), Map.empty, initial_State)"
    and la: "evaluates (StringConst ''a'') Map.empty initial_State (Inr (Share (String ''a'')), Map.empty, initial_State)"
    by (rule evaluatesI [of 1]; simp)+
  have t: "\<not> IsTrue (Share (Number 0))" "IsTrue (Share (String ''a''))" by simp_all
  from short_circuit [of "NumericConst 0" Map.empty initial_State, THEN conjunct1, rule_format,
                      OF conjI [OF l0 t(1)]]
  have 1: "evaluates (And (NumericConst 0) (Print [StringConst ''x''])) Map.empty initial_State
     (Inr (Own (Bool False)), Map.empty, initial_State)" .
  from short_circuit [of "StringConst ''a''" Map.empty initial_State, THEN conjunct2, rule_format,
                      OF conjI [OF la t(2)]]
  have 2: "evaluates (Or (StringConst ''a'') (Assignment ''y'' (NumericConst 2))) Map.empty initial_State
     (Inr (Own (Bool True)), Map.empty, initial_State)" .
  have 3: "evaluates (Print [StringConst ''x'']) Map.empty initial_State
     (Inr Empty, Map.empty, initial_State\<lparr>output_stream := ''x'' @ [CHR 0x0A]\<rparr>)"
    by (rule evaluatesI [of 3]) (simp_all add: numeral_3_eq_3 initial_State_def)
  have 4: "evaluates (Assignment ''y'' (NumericConst 2)) Map.empty initial_State
     (Inr (Share (Number 2)), Map.empty(''y'' \<mapsto> Share (Number 2)), initial_State)"
    by (rule evaluatesI [of 2]) (simp_all add: numeral_2_eq_2)
  from 1 2 3 4 show ?thesis by (intro conjI)
qed








text \<open>
  Claim C10. When \<^verbatim>\<open>HasMethod("__init__", |args|)\<close> fails for the class of a
  \<^verbatim>\<open>NewInstance\<close> node (the class chain has no \<^verbatim>\<open>__init__\<close>, or the nearest one has another
  number of parameters, even if a farther one fits), the node evaluates none of its
  arguments: closure and state are unchanged and the result is a \<^verbatim>\<open>Share\<close> holder of the
  node's instance.
\<close>

theorem NewInstance_without_init:
  "(\<not> HasMethod cls INIT_METHOD (length args) \<longrightarrow>
      evaluates (NewInstance this cls args) c s (Inr (Share (ClassInstance this cls)), c, s))
 \<and> (\<forall>mtd. GetMethod cls INIT_METHOD = Some mtd \<and> length (formal_params mtd) \<noteq> length args \<longrightarrow>
       \<not> HasMethod cls INIT_METHOD (length args))
 \<and> (GetMethod cls INIT_METHOD = None \<longrightarrow> \<not> HasMethod cls INIT_METHOD (length args))"
proof (intro conjI allI impI)
  assume "\<not> HasMethod cls INIT_METHOD (length args)"
  then have "Execute (Suc 0) (NewInstance this cls args) c s = (Inr (Share (ClassInstance this cls)), c, s)"
    by simp
  then show "evaluates (NewInstance this cls args) c s (Inr (Share (ClassInstance this cls)), c, s)"
    by (rule evaluatesI) simp
qed (simp_all add: HasMethod_def)

theorem NewInstance_without_init_witness:
  "GetMethod class_B INIT_METHOD = Some (Method ''__init__'' [] (MethodBody (Compound [])))
 \<and> GetMethod class_A INIT_METHOD = Some (Method ''__init__'' [''x''] (MethodBody (Compound [])))
 \<and> evaluates (NewInstance 0 class_B [Print [StringConst ''x'']]) Map.empty initial_State
     (Inr (Share (ClassInstance 0 class_B)), Map.empty, initial_State)"
proof -
  have g: "GetMethod class_B INIT_METHOD = Some (Method ''__init__'' [] (MethodBody (Compound [])))"
    by (simp add: class_B_def INIT_METHOD_def)
  have a: "GetMethod class_A INIT_METHOD = Some (Method ''__init__'' [''x''] (MethodBody (Compound [])))"
    by (simp add: class_A_def INIT_METHOD_def)
  from g have "\<not> HasMethod class_B INIT_METHOD (length [Print [StringConst ''x'']])"
    by (simp add: HasMethod_def)
  from NewInstance_without_init [of class_B "[Print [StringConst ''x'']]" 0 Map.empty initial_State,
         THEN conjunct1, rule_format, OF this]
  have "evaluates (NewInstance 0 class_B [Print [StringConst ''x'']]) Map.empty initial_State
     (Inr (Share (ClassInstance 0 class_B)), Map.empty, initial_State)" .
  with g a show ?thesis by (intro conjI)
qed

text \<open>\<^verbatim>\<open>MethodBody\<close>, one level deeper than its body.\<close>

lemma MethodBody_depth:
  "(Execute (Suc n) (MethodBody body) c s = (Inl (ThrowError e), c1, s1)
      \<longleftrightarrow> Execute n body c s = (Inl (ThrowError e), c1, s1))
 \<and> (Execute (Suc n) (MethodBody body) c s = (Inr h, c1, s1)
      \<longleftrightarrow> Execute n body c s = (Inl (ThrowReturn h), c1, s1)
          \<or> (h = Empty \<and> (\<exists>v. Execute n body c s = (Inr v, c1, s1))))
 \<and> (\<forall>h. Execute (Suc n) (MethodBody body) c s \<noteq> (Inl (ThrowReturn h), c1, s1))"
  by (auto split: prod.splits sum.splits Signal.splits)

text \<open>
  Claim C2. \<^verbatim>\<open>MethodBody\<close> leaves a runtime error as it is: it ends with the error \<open>e\<close>
  exactly when its body does, with the same closure and state. It returns a value exactly
  when the body threw that value with \<^verbatim>\<open>return\<close>, or completed (and then the value is the
  empty holder); and it never lets a \<^verbatim>\<open>return\<close> through.
\<close>

theorem MethodBody_channels:
  "(evaluates (MethodBody body) c s (Inl (ThrowError e), c1, s1)
      \<longleftrightarrow> evaluates body c s (Inl (ThrowError e), c1, s1))
 \<and> (evaluates (MethodBody body) c s (Inr h, c1, s1)
      \<longleftrightarrow> evaluates body c s (Inl (ThrowReturn h), c1, s1)
          \<or> (h = Empty \<and> (\<exists>v. evaluates body c s (Inr v, c1, s1))))
 \<and> (\<forall>h. \<not> evaluates (MethodBody body) c s (Inl (ThrowReturn h), c1, s1))"
proof -
  have up: "evaluates (MethodBody body) c s res'"
    if "evaluates body c s res" "\<And>n. Execute n body c s = res \<Longrightarrow> Execute (Suc n) (MethodBody body) c s = res'"
       "fst res' \<noteq> Inl OutOfFuel" for res res'
  proof -
    from that(1) obtain n where "Execute n body c s = res" unfolding evaluates_def by blast
    from that(2) [OF this] that(3) show ?thesis by (rule evaluatesI)
  qed
  have down: "\<exists>n. Execute (Suc n) (MethodBody body) c s = res" if "evaluates (MethodBody body) c s res" for res
  proof -
    from that obtain k where k: "Execute k (MethodBody body) c s = res" "fst res \<noteq> Inl OutOfFuel"
      unfolding evaluates_def by blast
    then show ?thesis by (cases k) auto
  qed
  have 1: "evaluates (MethodBody body) c s (Inl (ThrowError e), c1, s1)
      \<longleftrightarrow> evaluates body c s (Inl (ThrowError e), c1, s1)"
  proof
    assume "evaluates (MethodBody body) c s (Inl (ThrowError e), c1, s1)"
    from down [OF this] obtain n where "Execute (Suc n) (MethodBody body) c s = (Inl (ThrowError e), c1, s1)"
      by blast
    with MethodBody_depth [of n body c s e c1 s1] have "Execute n body c s = (Inl (ThrowError e), c1, s1)"
      by blast
    then show "evaluates body c s (Inl (ThrowError e), c1, s1)" by (rule evaluatesI) simp
  next
    assume "evaluates body c s (Inl (ThrowError e), c1, s1)"
    then show "evaluates (MethodBody body) c s (Inl (ThrowError e), c1, s1)"
      by (rule up) simp_all
  qed
  have 2: "evaluates (MethodBody body) c s (Inr h, c1, s1)
      \<longleftrightarrow> evaluates body c s (Inl (ThrowReturn h), c1, s1)
          \<or> (h = Empty \<and> (\<exists>v. evaluates body c s (Inr v, c1, s1)))"
  proof
    assume "evaluates (MethodBody body) c s (Inr h, c1, s1)"
    from down [OF this] obtain n where "Execute (Suc n) (MethodBody body) c s = (Inr h, c1, s1)"
      by blast
    with MethodBody_depth [of n body c s _ c1 s1 h]
    consider (ret) "Execute n body c s = (Inl (ThrowReturn h), c1, s1)"
      | (val) v where "h = Empty" "Execute n body c s = (Inr v, c1, s1)"
      by blast
    then show "evaluates body c s (Inl (ThrowReturn h), c1, s1)
          \<or> (h = Empty \<and> (\<exists>v. evaluates body c s (Inr v, c1, s1)))"
    proof cases
      case ret
      then have "evaluates body c s (Inl (ThrowReturn h), c1, s1)" by (rule evaluatesI) simp
      then show ?thesis by blast
    next
      case val
      from val(2) have "evaluates body c s (Inr v, c1, s1)" by (rule evaluatesI) simp
      with val(1) show ?thesis by blast
    qed
  next
    assume "evaluates body c s (Inl (ThrowReturn h), c1, s1)
          \<or> (h = Empty \<and> (\<exists>v. evaluates body c s (Inr v, c1, s1)))"
    then consider (ret) "evaluates body c s (Inl (ThrowReturn h), c1, s1)"
      | (val) v where "h = Empty" "evaluates body c s (Inr v, c1, s1)"
      by blast
    then show "evaluates (MethodBody body) c s (Inr h, c1, s1)"
    proof cases
      case ret
      then show ?thesis by (rule up) simp_all
    next
      case val
      from val(2) have "evaluates (MethodBody body) c s (Inr Empty, c1, s1)"
        by (rule up) simp_all
      with val(1) show ?thesis by simp
    qed
  qed
  have 3: "\<not> evaluates (MethodBody body) c s (Inl (ThrowReturn h), c1, s1)" for h
  proof
    assume "evaluates (MethodBody body) c s (Inl (ThrowReturn h), c1, s1)"
    from down [OF this] MethodBody_depth [of _ body c s _ c1 s1] show False by blast
  qed
  from 1 2 3 show ?thesis by blast
qed

theorem MethodBody_channels_witness:
  "evaluates (MethodBody (VariableValue ''x'' [])) Map.empty initial_State
     (Inl (ThrowError VariableNotFound), Map.empty, initial_State)
 \<and> evaluates (MethodBody (Sub (StringConst ''a'') (NumericConst 1))) Map.empty initial_State
     (Inl (ThrowError CannotSubtract), Map.empty, initial_State)
 \<and> evaluates (MethodBody (Comparison Less_cmp (NumericConst 1) (StringConst ''a''))) Map.empty initial_State
     (Inl (ThrowError CannotCompare), Map.empty, initial_State)
 \<and> evaluates (MethodBody (MethodCall (NewInstance 0 class_A []) ''f'' [])) Map.empty initial_State
     (Inl (ThrowError NoMethod), Map.empty, initial_State)
 \<and> evaluates (MethodBody (Div (NumericConst 1) (NumericConst 0))) Map.empty initial_State
     (Inl (ThrowError DivisionByZero), Map.empty, initial_State)
 \<and> evaluates (MethodBody (MethodCall (NumericConst 1) ''f'' [])) Map.empty initial_State
     (Inl (ThrowError ObjectIsNotClassInstance), Map.empty, initial_State)
 \<and> evaluates (MethodBody (Return (NumericConst 1))) Map.empty initial_State
     (Inr (Share (Number 1)), Map.empty, initial_State)"
proof -
  have b1: "evaluates (VariableValue ''x'' []) Map.empty initial_State
      (Inl (ThrowError VariableNotFound), Map.empty, initial_State)"
    by (rule evaluatesI [of 1]) simp_all
  have b2: "evaluates (Sub (StringConst ''a'') (NumericConst 1)) Map.empty initial_State
      (Inl (ThrowError CannotSubtract), Map.empty, initial_State)"
    by (rule evaluatesI [of 2])
       (simp_all add: numeral_2_eq_2 Execute_operands_def BINARY_OPERATION_Number_def)
  have b3: "evaluates (Comparison Less_cmp (NumericConst 1) (StringConst ''a'')) Map.empty initial_State
      (Inl (ThrowError CannotCompare), Map.empty, initial_State)"
    by (rule evaluatesI [of 2]) (simp_all add: numeral_2_eq_2 Execute_operands_def Less_def Comp_def)
  have b4: "evaluates (MethodCall (NewInstance 0 class_A []) ''f'' []) Map.empty initial_State
      (Inl (ThrowError NoMethod), Map.empty, initial_State)"
    by (rule evaluatesI [of 2])
       (simp_all add: numeral_2_eq_2 class_A_def HasMethod_def INIT_METHOD_def Call_def)
  have b5: "evaluates (Div (NumericConst 1) (NumericConst 0)) Map.empty initial_State
      (Inl (ThrowError DivisionByZero), Map.empty, initial_State)"
    by (rule evaluatesI [of 2]) (simp_all add: numeral_2_eq_2 Execute_operands_def)
  have b6: "evaluates (MethodCall (NumericConst 1) ''f'' []) Map.empty initial_State
      (Inl (ThrowError ObjectIsNotClassInstance), Map.empty, initial_State)"
    by (rule evaluatesI [of 2]) (simp_all add: numeral_2_eq_2)
  have b7: "evaluates (Return (NumericConst 1)) Map.empty initial_State
      (Inl (ThrowReturn (Share (Number 1))), Map.empty, initial_State)"
    by (rule evaluatesI [of 2]) (simp_all add: numeral_2_eq_2)
  have "evaluates (MethodBody (VariableValue ''x'' [])) Map.empty initial_State
     (Inl (ThrowError VariableNotFound), Map.empty, initial_State)"
    using MethodBody_channels [of "VariableValue ''x'' []" Map.empty initial_State, THEN conjunct1, THEN iffD2, OF b1] .
  moreover have "evaluates (MethodBody (Sub (StringConst ''a'') (NumericConst 1))) Map.empty initial_State
     (Inl (ThrowError CannotSubtract), Map.empty, initial_State)"
    using MethodBody_channels [of "Sub (StringConst ''a'') (NumericConst 1)" Map.empty initial_State, THEN conjunct1, THEN iffD2, OF b2] .
  moreover have "evaluates (MethodBody (Comparison Less_cmp (NumericConst 1) (StringConst ''a''))) Map.empty initial_State
     (Inl (ThrowError CannotCompare), Map.empty, initial_State)"
    using MethodBody_channels [of "Comparison Less_cmp (NumericConst 1) (StringConst ''a'')" Map.empty initial_State, THEN conjunct1, THEN iffD2, OF b3] .
  moreover have "evaluates (MethodBody (MethodCall (NewInstance 0 class_A []) ''f'' [])) Map.empty initial_State
     (Inl (ThrowError NoMethod), Map.empty, initial_State)"
    using MethodBody_channels [of "MethodCall (NewInstance 0 class_A []) ''f'' []" Map.empty initial_State, THEN conjunct1, THEN iffD2, OF b4] .
  moreover have "evaluates (MethodBody (Div (NumericConst 1) (NumericConst 0))) Map.empty initial_State
     (Inl (ThrowError DivisionByZero), Map.empty, initial_State)"
    using MethodBody_channels [of "Div (NumericConst 1) (NumericConst 0)" Map.empty initial_State, THEN conjunct1, THEN iffD2, OF b5] .
  moreover have "evaluates (MethodBody (MethodCall (NumericConst 1) ''f'' [])) Map.empty initial_State
     (Inl (ThrowError ObjectIsNotClassInstance), Map.empty, initial_State)"
    using MethodBody_channels [of "MethodCall (NumericConst 1) ''f'' []" Map.empty initial_State, THEN conjunct1, THEN iffD2, OF b6] .
  moreover have "evaluates (MethodBody (Return (NumericConst 1))) Map.empty initial_State
     (Inr (Share (Number 1)), Map.empty, initial_State)"
    using MethodBody_channels [of "Return (NumericConst 1)" Map.empty initial_State, THEN conjunct2, THEN conjunct1, THEN iffD2, OF disjI1 [OF b7]] .
  ultimately show ?thesis by (intro conjI)
qed

text \<open>
  What a method call does when the body of the method throws a \<^verbatim>\<open>return\<close>, with the depth
  of each evaluation.
\<close>

lemma MethodCall_Return_depth:
  assumes obj: "Execute n object c s = (Inr h, c1, s1)"
    and inst: "TryAs_ClassInstance h = Some (this, cls)"
    and args: "Execute_args (Execute n) args c1 s1 = (Inr actual_args, c2, s2)"
    and mtd: "GetMethod cls g = Some mtd" "Method_body mtd = MethodBody body"
             "length (formal_params mtd) = length actual_args"
    and ret: "n = Suc m"
             "Execute m body (bind_params (formal_params mtd) actual_args
                 (Map.empty(''self'' \<mapsto> Share (ClassInstance this cls)))) s2
               = (Inl (ThrowReturn x), cg, s3)"
  shows "Execute (Suc n) (MethodCall object g args) c s = (Inr x, c2, s3)"
    and "Execute (Suc (Suc n)) (Compound (MethodCall object g args # rest)) c s
              = Execute (Suc (Suc n)) (Compound rest) c2 s3"
    and "Execute (Suc (Suc (Suc n))) (MethodBody (Compound (MethodCall object g args # rest))) c s
              = Execute (Suc (Suc (Suc n))) (MethodBody (Compound rest)) c2 s3"
proof -
  have call: "Call (Execute n) this cls g actual_args s2 = (Inr x, s3)"
    using mtd ret by (simp add: Call_def HasMethod_def)
  show mc: "Execute (Suc n) (MethodCall object g args) c s = (Inr x, c2, s3)"
    using obj inst args call by simp
  show comp: "Execute (Suc (Suc n)) (Compound (MethodCall object g args # rest)) c s
              = Execute (Suc (Suc n)) (Compound rest) c2 s3"
    using mc by simp
  show "Execute (Suc (Suc (Suc n))) (MethodBody (Compound (MethodCall object g args # rest))) c s
              = Execute (Suc (Suc (Suc n))) (MethodBody (Compound rest)) c2 s3"
    using comp by simp
qed

text \<open>The same, whatever the depth.\<close>

lemma MethodCall_of_returning_method:
  assumes obj: "evaluates object c s (Inr h, c1, s1)"
    and inst: "TryAs_ClassInstance h = Some (this, cls)"
    and args: "evaluates_args args c1 s1 (Inr actual_args, c2, s2)"
    and mtd: "GetMethod cls g = Some mtd" "Method_body mtd = MethodBody body"
             "length (formal_params mtd) = length actual_args"
    and ret: "evaluates body (bind_params (formal_params mtd) actual_args
                 (Map.empty(''self'' \<mapsto> Share (ClassInstance this cls)))) s2
               (Inl (ThrowReturn x), cg, s3)"
  shows "evaluates (MethodCall object g args) c s (Inr x, c2, s3)
       \<and> (\<forall>rest res. evaluates (Compound (MethodCall object g args # rest)) c s res
              \<longleftrightarrow> evaluates (Compound rest) c2 s3 res)
       \<and> (\<forall>rest res. evaluates (MethodBody (Compound (MethodCall object g args # rest))) c s res
              \<longleftrightarrow> evaluates (MethodBody (Compound rest)) c2 s3 res)
       \<and> evaluates (MethodBody (Compound [MethodCall object g args])) c s (Inr Empty, c2, s3)
       \<and> (\<forall>v y c3 s4. evaluates v c2 s3 (Inr y, c3, s4) \<longrightarrow>
            evaluates (MethodBody (Compound [MethodCall object g args, Return v])) c s (Inr y, c3, s4))
       \<and> (\<forall>k acts st y st'. Call (Execute k) this cls g acts st \<noteq> (Inl (ThrowReturn y), st'))"
proof -
  let ?call = "MethodCall object g args"
  let ?self = "bind_params (formal_params mtd) actual_args
                 (Map.empty(''self'' \<mapsto> Share (ClassInstance this cls)))"
  from evaluates_from [OF obj] obtain n1 where
    n1: "\<forall>m\<ge>n1. Execute m object c s = (Inr h, c1, s1)" by blast
  from evaluates_args_from [OF args] obtain n2 where
    n2: "\<forall>m\<ge>n2. Execute_args (Execute m) args c1 s1 = (Inr actual_args, c2, s2)" by blast
  from evaluates_from [OF ret] obtain n3 where
    n3: "\<forall>m\<ge>n3. Execute m body ?self s2 = (Inl (ThrowReturn x), cg, s3)" by blast
  define N where "N = max n1 (max n2 n3)"
  have deep: "Execute (Suc n) object c s = (Inr h, c1, s1)"
    "Execute_args (Execute (Suc n)) args c1 s1 = (Inr actual_args, c2, s2)"
    "Execute n body ?self s2 = (Inl (ThrowReturn x), cg, s3)" if "N \<le> n" for n
  proof -
    from that have le: "n1 \<le> Suc n" "n2 \<le> Suc n" "n3 \<le> n" by (simp_all add: N_def)
    from n1 le(1) show "Execute (Suc n) object c s = (Inr h, c1, s1)" by blast
    from n2 le(2) show "Execute_args (Execute (Suc n)) args c1 s1 = (Inr actual_args, c2, s2)" by blast
    from n3 le(3) show "Execute n body ?self s2 = (Inl (ThrowReturn x), cg, s3)" by blast
  qed
  note loc = MethodCall_Return_depth [OF deep(1) inst deep(2) mtd refl deep(3)]
  have "Execute (Suc (Suc N)) ?call c s = (Inr x, c2, s3)"
    by (rule loc(1)) simp_all
  then have 1: "evaluates ?call c s (Inr x, c2, s3)"
    by (rule evaluatesI) simp
  have 2: "evaluates (Compound (?call # rest)) c s res \<longleftrightarrow> evaluates (Compound rest) c2 s3 res"
    for rest res
  proof (rule evaluates_cong [where N = N and f = "\<lambda>n. Suc (Suc (Suc n))" and g = "\<lambda>n. Suc (Suc (Suc n))"])
    show "Execute (Suc (Suc (Suc n))) (Compound (?call # rest)) c s
        = Execute (Suc (Suc (Suc n))) (Compound rest) c2 s3" if "N \<le> n" for n
      by (rule loc(2)) (rule that)+
  qed simp_all
  have 3: "evaluates (MethodBody (Compound (?call # rest))) c s res
      \<longleftrightarrow> evaluates (MethodBody (Compound rest)) c2 s3 res" for rest res
  proof (rule evaluates_cong [where N = N and f = "\<lambda>n. Suc (Suc (Suc (Suc n)))"
                                and g = "\<lambda>n. Suc (Suc (Suc (Suc n)))"])
    show "Execute (Suc (Suc (Suc (Suc n)))) (MethodBody (Compound (?call # rest))) c s
        = Execute (Suc (Suc (Suc (Suc n)))) (MethodBody (Compound rest)) c2 s3" if "N \<le> n" for n
      by (rule loc(3)) (rule that)+
  qed simp_all
  have "Execute (Suc (Suc (Suc 0))) (MethodBody (Compound [])) c2 s3 = (Inr Empty, c2, s3)"
    by simp
  then have "evaluates (MethodBody (Compound [])) c2 s3 (Inr Empty, c2, s3)"
    by (rule evaluatesI) simp
  with 3 [of "[]"] have 4: "evaluates (MethodBody (Compound [?call])) c s (Inr Empty, c2, s3)"
    by simp
  have 5: "evaluates (MethodBody (Compound [?call, Return v])) c s (Inr y, c3, s4)"
    if "evaluates v c2 s3 (Inr y, c3, s4)" for v y c3 s4
  proof -
    from that obtain k where "Execute k v c2 s3 = (Inr y, c3, s4)" unfolding evaluates_def by blast
    then have "Execute (Suc (Suc (Suc k))) (MethodBody (Compound [Return v])) c2 s3 = (Inr y, c3, s4)"
      by simp
    then have "evaluates (MethodBody (Compound [Return v])) c2 s3 (Inr y, c3, s4)"
      by (rule evaluatesI) simp
    with 3 [of "[Return v]"] show ?thesis by simp
  qed
  have 6: "Call (Execute k) this cls g acts st \<noteq> (Inl (ThrowReturn y), st')" for k acts st y st'
    using mtd(1,2)
    by (cases k) (auto simp: Call_def split: prod.splits sum.splits Signal.splits if_splits)
  from 2 have all2: "\<forall>rest res. evaluates (Compound (?call # rest)) c s res
              \<longleftrightarrow> evaluates (Compound rest) c2 s3 res" by blast
  from 3 have all3: "\<forall>rest res. evaluates (MethodBody (Compound (?call # rest))) c s res
              \<longleftrightarrow> evaluates (MethodBody (Compound rest)) c2 s3 res" by blast
  from 5 have all5: "\<forall>v y c3 s4. evaluates v c2 s3 (Inr y, c3, s4) \<longrightarrow>
            evaluates (MethodBody (Compound [?call, Return v])) c s (Inr y, c3, s4)" by blast
  from 6 have all6: "\<forall>k acts st y st'. Call (Execute k) this cls g acts st \<noteq> (Inl (ThrowReturn y), st')"
    by blast
  from 1 all2 all3 4 all5 all6 show ?thesis by (intro conjI)
qed

text \<open>
  A \<^verbatim>\<open>return\<close> thrown by a statement that a node evaluates leaves the node as it is, with
  the closure and the state of the throw: node by node, in the order of \<^verbatim>\<open>statement.cpp\<close>.
\<close>

lemma Return_through_unary:
  assumes "evaluates e c s (Inl (ThrowReturn x), c', s')"
  shows "evaluates (Assignment var e) c s (Inl (ThrowReturn x), c', s')"
    and "evaluates (Stringify e) c s (Inl (ThrowReturn x), c', s')"
    and "evaluates (Not_stmt e) c s (Inl (ThrowReturn x), c', s')"
    and "evaluates (Return e) c s (Inl (ThrowReturn x), c', s')"
    and "evaluates (Print (e # rest)) c s (Inl (ThrowReturn x), c', s')"
    and "evaluates (Compound (e # rest)) c s (Inl (ThrowReturn x), c', s')"
    and "evaluates (MethodCall e method args) c s (Inl (ThrowReturn x), c', s')"
    and "evaluates (IfElse e if_body else_body) c s (Inl (ThrowReturn x), c', s')"
    and "evaluates (Or e r) c s (Inl (ThrowReturn x), c', s')"
    and "evaluates (And e r) c s (Inl (ThrowReturn x), c', s')"
    and "evaluates (Add e r) c s (Inl (ThrowReturn x), c', s')"
    and "evaluates (Sub e r) c s (Inl (ThrowReturn x), c', s')"
    and "evaluates (Mult e r) c s (Inl (ThrowReturn x), c', s')"
    and "evaluates (Div e r) c s (Inl (ThrowReturn x), c', s')"
    and "evaluates (MethodBody e) c s (Inr x, c', s')"
proof -
  from assms obtain n where n: "Execute n e c s = (Inl (ThrowReturn x), c', s')"
    unfolding evaluates_def by blast
  have "Execute (Suc n) (Assignment var e) c s = (Inl (ThrowReturn x), c', s')" using n by simp
  then show "evaluates (Assignment var e) c s (Inl (ThrowReturn x), c', s')"
    by (rule evaluatesI) simp
  have "Execute (Suc n) (Stringify e) c s = (Inl (ThrowReturn x), c', s')" using n by simp
  then show "evaluates (Stringify e) c s (Inl (ThrowReturn x), c', s')"
    by (rule evaluatesI) simp
  have "Execute (Suc n) (Not_stmt e) c s = (Inl (ThrowReturn x), c', s')" using n by simp
  then show "evaluates (Not_stmt e) c s (Inl (ThrowReturn x), c', s')"
    by (rule evaluatesI) simp
  have "Execute (Suc n) (Return e) c s = (Inl (ThrowReturn x), c', s')" using n by simp
  then show "evaluates (Return e) c s (Inl (ThrowReturn x), c', s')"
    by (rule evaluatesI) simp
  have "Execute (Suc n) (Print (e # rest)) c s = (Inl (ThrowReturn x), c', s')" using n by simp
  then show "evaluates (Print (e # rest)) c s (Inl (ThrowReturn x), c', s')"
    by (rule evaluatesI) simp
  have "Execute (Suc n) (Compound (e # rest)) c s = (Inl (ThrowReturn x), c', s')" using n by simp
  then show "evaluates (Compound (e # rest)) c s (Inl (ThrowReturn x), c', s')"
    by (rule evaluatesI) simp
  have "Execute (Suc n) (MethodCall e method args) c s = (Inl (ThrowReturn x), c', s')" using n by simp
  then show "evaluates (MethodCall e method args) c s (Inl (ThrowReturn x), c', s')"
    by (rule evaluatesI) simp
  have "Execute (Suc n) (IfElse e if_body else_body) c s = (Inl (ThrowReturn x), c', s')" using n by simp
  then show "evaluates (IfElse e if_body else_body) c s (Inl (ThrowReturn x), c', s')"
    by (rule evaluatesI) simp
  have "Execute (Suc n) (Or e r) c s = (Inl (ThrowReturn x), c', s')" using n by simp
  then show "evaluates (Or e r) c s (Inl (ThrowReturn x), c', s')"
    by (rule evaluatesI) simp
  have "Execute (Suc n) (And e r) c s = (Inl (ThrowReturn x), c', s')" using n by simp
  then show "evaluates (And e r) c s (Inl (ThrowReturn x), c', s')"
    by (rule evaluatesI) simp
  have "Execute (Suc n) (Add e r) c s = (Inl (ThrowReturn x), c', s')"
    using n by (simp add: Execute_operands_def)
  then show "evaluates (Add e r) c s (Inl (ThrowReturn x), c', s')"
    by (rule evaluatesI) simp
  have "Execute (Suc n) (Sub e r) c s = (Inl (ThrowReturn x), c', s')"
    using n by (simp add: Execute_operands_def)
  then show "evaluates (Sub e r) c s (Inl (ThrowReturn x), c', s')"
    by (rule evaluatesI) simp
  have "Execute (Suc n) (Mult e r) c s = (Inl (ThrowReturn x), c', s')"
    using n by (simp add: Execute_operands_def)
  then show "evaluates (Mult e r) c s (Inl (ThrowReturn x), c', s')"
    by (rule evaluatesI) simp
  have "Execute (Suc n) (Div e r) c s = (Inl (ThrowReturn x), c', s')"
    using n by (simp add: Execute_operands_def)
  then show "evaluates (Div e r) c s (Inl (ThrowReturn x), c', s')"
    by (rule evaluatesI) simp
  have "Execute (Suc n) (MethodBody e) c s = (Inr x, c', s')" using n by simp
  then show "evaluates (MethodBody e) c s (Inr x, c', s')"
    by (rule evaluatesI) simp
qed

lemma Return_through_second:
  assumes "evaluates l c s (Inr lv, c1, s1)"
    and "evaluates e c1 s1 (Inl (ThrowReturn x), c', s')"
  shows "evaluates (Add l e) c s (Inl (ThrowReturn x), c', s')"
    and "evaluates (Sub l e) c s (Inl (ThrowReturn x), c', s')"
    and "evaluates (Mult l e) c s (Inl (ThrowReturn x), c', s')"
    and "evaluates (Div l e) c s (Inl (ThrowReturn x), c', s')"
    and "\<not> IsTrue lv \<Longrightarrow> evaluates (Or l e) c s (Inl (ThrowReturn x), c', s')"
    and "IsTrue lv \<Longrightarrow> evaluates (And l e) c s (Inl (ThrowReturn x), c', s')"
    and "IsTrue lv \<Longrightarrow> evaluates (IfElse l e else_body) c s (Inl (ThrowReturn x), c', s')"
    and "\<not> IsTrue lv \<Longrightarrow> evaluates (IfElse l if_body (Some e)) c s (Inl (ThrowReturn x), c', s')"
proof -
  from evaluates_two [OF assms] obtain n where
    n: "Execute n l c s = (Inr lv, c1, s1)" "Execute n e c1 s1 = (Inl (ThrowReturn x), c', s')"
    by blast
  have "Execute (Suc n) (Add l e) c s = (Inl (ThrowReturn x), c', s')"
    using n by (simp add: Execute_operands_def)
  then show "evaluates (Add l e) c s (Inl (ThrowReturn x), c', s')"
    by (rule evaluatesI) simp
  have "Execute (Suc n) (Sub l e) c s = (Inl (ThrowReturn x), c', s')"
    using n by (simp add: Execute_operands_def)
  then show "evaluates (Sub l e) c s (Inl (ThrowReturn x), c', s')"
    by (rule evaluatesI) simp
  have "Execute (Suc n) (Mult l e) c s = (Inl (ThrowReturn x), c', s')"
    using n by (simp add: Execute_operands_def)
  then show "evaluates (Mult l e) c s (Inl (ThrowReturn x), c', s')"
    by (rule evaluatesI) simp
  have "Execute (Suc n) (Div l e) c s = (Inl (ThrowReturn x), c', s')"
    using n by (simp add: Execute_operands_def)
  then show "evaluates (Div l e) c s (Inl (ThrowReturn x), c', s')"
    by (rule evaluatesI) simp
  show "evaluates (Or l e) c s (Inl (ThrowReturn x), c', s')" if "\<not> IsTrue lv"
  proof -
    have "Execute (Suc n) (Or l e) c s = (Inl (ThrowReturn x), c', s')" using n that by simp
    then show ?thesis by (rule evaluatesI) simp
  qed
  show "evaluates (And l e) c s (Inl (ThrowReturn x), c', s')" if "IsTrue lv"
  proof -
    have "Execute (Suc n) (And l e) c s = (Inl (ThrowReturn x), c', s')" using n that by simp
    then show ?thesis by (rule evaluatesI) simp
  qed
  show "evaluates (IfElse l e else_body) c s (Inl (ThrowReturn x), c', s')" if "IsTrue lv"
  proof -
    have "Execute (Suc n) (IfElse l e else_body) c s = (Inl (ThrowReturn x), c', s')"
      using n that by simp
    then show ?thesis by (rule evaluatesI) simp
  qed
  show "evaluates (IfElse l if_body (Some e)) c s (Inl (ThrowReturn x), c', s')" if "\<not> IsTrue lv"
  proof -
    have "Execute (Suc n) (IfElse l if_body (Some e)) c s = (Inl (ThrowReturn x), c', s')"
      using n that by simp
    then show ?thesis by (rule evaluatesI) simp
  qed
qed

lemma Return_through_Comparison:
  shows "evaluates l c s (Inl (ThrowReturn x), c', s') \<Longrightarrow> evaluates r c s (Inr rv, c, s) \<Longrightarrow>
         evaluates (Comparison cmp l r) c s (Inl (ThrowReturn x), c', s')"
    and "evaluates l c s (Inr lv, c, s) \<Longrightarrow> evaluates r c s (Inl (ThrowReturn x), c', s') \<Longrightarrow>
         evaluates (Comparison cmp l r) c s (Inl (ThrowReturn x), c', s')"
proof -
  assume "evaluates l c s (Inl (ThrowReturn x), c', s')"
  then obtain n where "Execute n l c s = (Inl (ThrowReturn x), c', s')"
    unfolding evaluates_def by blast
  then have "Execute (Suc n) (Comparison cmp l r) c s = (Inl (ThrowReturn x), c', s')"
    by (simp add: Execute_operands_def)
  then show "evaluates (Comparison cmp l r) c s (Inl (ThrowReturn x), c', s')"
    by (rule evaluatesI) simp
next
  assume "evaluates l c s (Inr lv, c, s)" and "evaluates r c s (Inl (ThrowReturn x), c', s')"
  from evaluates_two [OF this] obtain n where
    "Execute n l c s = (Inr lv, c, s)" "Execute n r c s = (Inl (ThrowReturn x), c', s')" by blast
  then have "Execute (Suc n) (Comparison cmp l r) c s = (Inl (ThrowReturn x), c', s')"
    by (simp add: Execute_operands_def)
  then show "evaluates (Comparison cmp l r) c s (Inl (ThrowReturn x), c', s')"
    by (rule evaluatesI) simp
qed

lemma Return_through_FieldAssignment:
  assumes "VariableValue_Execute var_name tail c s = Inr h"
    and "TryAs_ClassInstance h = Some (obj, cls)"
    and "evaluates e c s (Inl (ThrowReturn x), c', s')"
  shows "evaluates (FieldAssignment var_name tail field_name e) c s (Inl (ThrowReturn x), c', s')"
proof -
  from assms(3) obtain n where "Execute n e c s = (Inl (ThrowReturn x), c', s')"
    unfolding evaluates_def by blast
  with assms(1,2) have
    "Execute (Suc n) (FieldAssignment var_name tail field_name e) c s = (Inl (ThrowReturn x), c', s')"
    by simp
  then show ?thesis by (rule evaluatesI) simp
qed

lemma Return_through_Compound:
  assumes "evaluates (Compound pre) c s (Inr v, c1, s1)"
    and "evaluates st c1 s1 (Inl (ThrowReturn x), c', s')"
  shows "evaluates (Compound (pre @ st # rest)) c s (Inl (ThrowReturn x), c', s')"
proof -
  from evaluates_two [OF assms] obtain n where
    n: "Execute n (Compound pre) c s = (Inr v, c1, s1)"
       "Execute n st c1 s1 = (Inl (ThrowReturn x), c', s')" by blast
  then obtain k where k: "n = Suc k" by (cases n) auto
  from n(1) k have a: "Compound_args (Execute k) pre c s = (Inr (), c1, s1)"
    by (auto split: prod.splits sum.splits)
  have e: "extends (Execute k) (Execute n)" by (rule extends_Execute) (simp add: k)
  from a have "Compound_args (Execute n) pre c s = (Inr (), c1, s1)"
    by (rule Compound_args_mono [OF e]) simp
  from Compound_args_append_throw [OF this n(2)]
  have "Execute (Suc n) (Compound (pre @ st # rest)) c s = (Inl (ThrowReturn x), c', s')" by simp
  then show ?thesis by (rule evaluatesI) simp
qed

lemma Return_through_Print:
  assumes "evaluates_print pre True c s (Inr u, c1, s1)"
    and "evaluates e c1 (if pre = [] then s1 else s1\<lparr>output_stream := output_stream s1 @ '' ''\<rparr>)
           (Inl (ThrowReturn x), c', s')"
  shows "evaluates (Print (pre @ e # rest)) c s (Inl (ThrowReturn x), c', s')"
proof -
  from evaluates_print_two [OF assms] obtain n where
    n: "Print_args n (Execute n) pre True c s = (Inr u, c1, s1)"
       "Execute n e c1 (if pre = [] then s1 else s1\<lparr>output_stream := output_stream s1 @ '' ''\<rparr>)
          = (Inl (ThrowReturn x), c', s')" by blast
  from n(2) have "Execute n e c1 (if True \<and> pre = [] then s1
       else s1\<lparr>output_stream := output_stream s1 @ '' ''\<rparr>) = (Inl (ThrowReturn x), c', s')" by simp
  from Print_args_append_throw [OF n(1) this]
  have "Execute (Suc n) (Print (pre @ e # rest)) c s = (Inl (ThrowReturn x), c', s')" by simp
  then show ?thesis by (rule evaluatesI) simp
qed

lemma Return_through_MethodCall_args:
  assumes "evaluates object c s (Inr h, c1, s1)"
    and "TryAs_ClassInstance h = Some (this, cls)"
    and "evaluates_args pre c1 s1 (Inr vs, c2, s2)"
    and "evaluates e c2 s2 (Inl (ThrowReturn x), c', s')"
  shows "evaluates (MethodCall object method (pre @ e # rest)) c s (Inl (ThrowReturn x), c', s')"
proof -
  from evaluates_three [OF assms(1,3,4)] obtain n where
    n: "Execute n object c s = (Inr h, c1, s1)"
       "Execute_args (Execute n) pre c1 s1 = (Inr vs, c2, s2)"
       "Execute n e c2 s2 = (Inl (ThrowReturn x), c', s')" by blast
  from Execute_args_append_throw [OF n(2,3)] n(1) assms(2)
  have "Execute (Suc n) (MethodCall object method (pre @ e # rest)) c s = (Inl (ThrowReturn x), c', s')"
    by simp
  then show ?thesis by (rule evaluatesI) simp
qed

lemma Return_through_NewInstance:
  assumes "HasMethod cls INIT_METHOD (length (pre @ e # rest))"
    and "evaluates_args pre c s (Inr vs, c1, s1)"
    and "evaluates e c1 s1 (Inl (ThrowReturn x), c', s')"
  shows "evaluates (NewInstance this cls (pre @ e # rest)) c s (Inl (ThrowReturn x), c', s')"
proof -
  from evaluates_args_two [OF assms(2,3)] obtain n where
    n: "Execute_args (Execute n) pre c s = (Inr vs, c1, s1)"
       "Execute n e c1 s1 = (Inl (ThrowReturn x), c', s')" by blast
  from Execute_args_append_throw [OF n] assms(1)
  have "Execute (Suc n) (NewInstance this cls (pre @ e # rest)) c s = (Inl (ThrowReturn x), c', s')"
    by simp
  then show ?thesis by (rule evaluatesI) simp
qed

lemma MethodBody_never_ThrowReturn:
  "\<not> evaluates (MethodBody body) c s (Inl (ThrowReturn y), c', s')"
proof
  assume "evaluates (MethodBody body) c s (Inl (ThrowReturn y), c', s')"
  then obtain k where "Execute k (MethodBody body) c s = (Inl (ThrowReturn y), c', s')"
    unfolding evaluates_def by blast
  then show False
    by (cases k) (auto split: prod.splits sum.splits Signal.splits)
qed

text \<open>
  Claim C1. Let a statement \<open>e\<close>, evaluated in the closure \<open>c\<close> and the state \<open>s\<close>, throw a
  \<^verbatim>\<open>return\<close> of \<open>x\<close> (it is a \<^verbatim>\<open>Return\<close>, or a statement it evaluates threw). Then

  \<^item> \<^verbatim>\<open>MethodBody\<close> is where the throw ends: the \<^verbatim>\<open>MethodBody\<close> of \<open>e\<close> returns \<open>x\<close> as a value, and
    no \<^verbatim>\<open>MethodBody\<close> lets a \<^verbatim>\<open>return\<close> through;
  \<^item> when \<open>e\<close> is the body of a method \<open>g\<close> (inside its \<^verbatim>\<open>MethodBody\<close>), a \<^verbatim>\<open>MethodCall\<close> of \<open>g\<close>
    returns \<open>x\<close> to the caller, which goes on: a \<^verbatim>\<open>Compound\<close> continues with the statements
    after the call, and the caller's own \<^verbatim>\<open>MethodBody\<close> returns what the rest of its body
    returns (the empty holder if nothing follows, \<open>y\<close> if \<^verbatim>\<open>return y\<close> follows), never \<open>x\<close>
    because of the call; no call of \<open>g\<close> ends with a \<^verbatim>\<open>return\<close> still in flight;
  \<^item> every other node that is evaluating \<open>e\<close> is abandoned: it ends with the same throw, and
    with the closure and the state \<open>e\<close> left, whatever it still had to do. That is so for
    a statement of a \<^verbatim>\<open>Compound\<close> at any position, the condition and both branches of an
    \<^verbatim>\<open>IfElse\<close>, the operand of \<^verbatim>\<open>Assignment\<close>, \<^verbatim>\<open>FieldAssignment\<close>, \<^verbatim>\<open>Stringify\<close>, \<^verbatim>\<open>Not\<close> and
    \<^verbatim>\<open>Return\<close>, either operand of \<^verbatim>\<open>Or\<close>, \<^verbatim>\<open>And\<close>, \<^verbatim>\<open>Add\<close>, \<^verbatim>\<open>Sub\<close>, \<^verbatim>\<open>Mult\<close> and \<^verbatim>\<open>Div\<close>, an
    argument of \<^verbatim>\<open>Print\<close>, the object and an argument of \<^verbatim>\<open>MethodCall\<close>, an argument of
    \<^verbatim>\<open>NewInstance\<close>, and an operand of \<^verbatim>\<open>Comparison\<close> (C++ leaves open which operand of a
    \<^verbatim>\<open>Comparison\<close> is evaluated first: the statement is for an other operand without
    effect, where the order does not show).

  A \<^verbatim>\<open>Return\<close> whose operand returns a value throws it.
\<close>

theorem return_locality:
  assumes ret: "evaluates e c s (Inl (ThrowReturn x), c', s')"
  shows
   "evaluates (MethodBody e) c s (Inr x, c', s')
  \<and> (\<forall>st c0 s0 y c1 s1. \<not> evaluates (MethodBody st) c0 s0 (Inl (ThrowReturn y), c1, s1))
  \<and> (\<forall>object c0 s0 h c1 s1 this cls args actual_args c2 g mtd.
        evaluates object c0 s0 (Inr h, c1, s1) \<and> TryAs_ClassInstance h = Some (this, cls)
      \<and> evaluates_args args c1 s1 (Inr actual_args, c2, s)
      \<and> GetMethod cls g = Some mtd \<and> Method_body mtd = MethodBody e
      \<and> length (formal_params mtd) = length actual_args
      \<and> c = bind_params (formal_params mtd) actual_args
               (Map.empty(''self'' \<mapsto> Share (ClassInstance this cls)))
      \<longrightarrow>
        evaluates (MethodCall object g args) c0 s0 (Inr x, c2, s')
      \<and> (\<forall>rest res. evaluates (Compound (MethodCall object g args # rest)) c0 s0 res
              \<longleftrightarrow> evaluates (Compound rest) c2 s' res)
      \<and> (\<forall>rest res. evaluates (MethodBody (Compound (MethodCall object g args # rest))) c0 s0 res
              \<longleftrightarrow> evaluates (MethodBody (Compound rest)) c2 s' res)
      \<and> evaluates (MethodBody (Compound [MethodCall object g args])) c0 s0 (Inr Empty, c2, s')
      \<and> (\<forall>v y c3 s4. evaluates v c2 s' (Inr y, c3, s4) \<longrightarrow>
            evaluates (MethodBody (Compound [MethodCall object g args, Return v])) c0 s0 (Inr y, c3, s4))
      \<and> (\<forall>k acts st y st'. Call (Execute k) this cls g acts st \<noteq> (Inl (ThrowReturn y), st')))
  \<and> (\<forall>pre c0 s0 v rest. evaluates (Compound pre) c0 s0 (Inr v, c, s) \<longrightarrow>
        evaluates (Compound (pre @ e # rest)) c0 s0 (Inl (ThrowReturn x), c', s'))
  \<and> (\<forall>if_body else_body. evaluates (IfElse e if_body else_body) c s (Inl (ThrowReturn x), c', s'))
  \<and> (\<forall>condition c0 s0 v else_body. evaluates condition c0 s0 (Inr v, c, s) \<and> IsTrue v \<longrightarrow>
        evaluates (IfElse condition e else_body) c0 s0 (Inl (ThrowReturn x), c', s'))
  \<and> (\<forall>condition c0 s0 v if_body. evaluates condition c0 s0 (Inr v, c, s) \<and> \<not> IsTrue v \<longrightarrow>
        evaluates (IfElse condition if_body (Some e)) c0 s0 (Inl (ThrowReturn x), c', s'))
  \<and> (\<forall>var. evaluates (Assignment var e) c s (Inl (ThrowReturn x), c', s'))
  \<and> evaluates (Stringify e) c s (Inl (ThrowReturn x), c', s')
  \<and> evaluates (Not_stmt e) c s (Inl (ThrowReturn x), c', s')
  \<and> evaluates (Return e) c s (Inl (ThrowReturn x), c', s')
  \<and> (\<forall>rhs. evaluates (Or e rhs) c s (Inl (ThrowReturn x), c', s')
           \<and> evaluates (And e rhs) c s (Inl (ThrowReturn x), c', s')
           \<and> evaluates (Add e rhs) c s (Inl (ThrowReturn x), c', s')
           \<and> evaluates (Sub e rhs) c s (Inl (ThrowReturn x), c', s')
           \<and> evaluates (Mult e rhs) c s (Inl (ThrowReturn x), c', s')
           \<and> evaluates (Div e rhs) c s (Inl (ThrowReturn x), c', s'))
  \<and> (\<forall>lhs c0 s0 v. evaluates lhs c0 s0 (Inr v, c, s) \<longrightarrow>
           (\<not> IsTrue v \<longrightarrow> evaluates (Or lhs e) c0 s0 (Inl (ThrowReturn x), c', s'))
         \<and> (IsTrue v \<longrightarrow> evaluates (And lhs e) c0 s0 (Inl (ThrowReturn x), c', s'))
         \<and> evaluates (Add lhs e) c0 s0 (Inl (ThrowReturn x), c', s')
         \<and> evaluates (Sub lhs e) c0 s0 (Inl (ThrowReturn x), c', s')
         \<and> evaluates (Mult lhs e) c0 s0 (Inl (ThrowReturn x), c', s')
         \<and> evaluates (Div lhs e) c0 s0 (Inl (ThrowReturn x), c', s'))
  \<and> (\<forall>cmp rhs v. evaluates rhs c s (Inr v, c, s) \<longrightarrow>
        evaluates (Comparison cmp e rhs) c s (Inl (ThrowReturn x), c', s'))
  \<and> (\<forall>cmp lhs v. evaluates lhs c s (Inr v, c, s) \<longrightarrow>
        evaluates (Comparison cmp lhs e) c s (Inl (ThrowReturn x), c', s'))
  \<and> (\<forall>var_name tail h obj cls field_name.
        VariableValue_Execute var_name tail c s = Inr h \<and> TryAs_ClassInstance h = Some (obj, cls) \<longrightarrow>
        evaluates (FieldAssignment var_name tail field_name e) c s (Inl (ThrowReturn x), c', s'))
  \<and> (\<forall>pre c0 s0 u s1 rest.
        evaluates_print pre True c0 s0 (Inr u, c, s1)
      \<and> s = (if pre = [] then s1 else s1\<lparr>output_stream := output_stream s1 @ '' ''\<rparr>) \<longrightarrow>
        evaluates (Print (pre @ e # rest)) c0 s0 (Inl (ThrowReturn x), c', s'))
  \<and> (\<forall>method args. evaluates (MethodCall e method args) c s (Inl (ThrowReturn x), c', s'))
  \<and> (\<forall>object c0 s0 h c1 s1 this cls pre vs method rest.
        evaluates object c0 s0 (Inr h, c1, s1) \<and> TryAs_ClassInstance h = Some (this, cls)
      \<and> evaluates_args pre c1 s1 (Inr vs, c, s) \<longrightarrow>
        evaluates (MethodCall object method (pre @ e # rest)) c0 s0 (Inl (ThrowReturn x), c', s'))
  \<and> (\<forall>this cls pre rest c0 s0 vs.
        HasMethod cls INIT_METHOD (length (pre @ e # rest)) \<and> evaluates_args pre c0 s0 (Inr vs, c, s) \<longrightarrow>
        evaluates (NewInstance this cls (pre @ e # rest)) c0 s0 (Inl (ThrowReturn x), c', s'))
  \<and> (\<forall>v c0 s0 y c1 s1. evaluates v c0 s0 (Inr y, c1, s1) \<longrightarrow>
        evaluates (Return v) c0 s0 (Inl (ThrowReturn y), c1, s1))"
proof -
  note u = Return_through_unary [OF ret]
  have main: "\<forall>object c0 s0 h c1 s1 this cls args actual_args c2 g mtd.
        evaluates object c0 s0 (Inr h, c1, s1) \<and> TryAs_ClassInstance h = Some (this, cls)
      \<and> evaluates_args args c1 s1 (Inr actual_args, c2, s)
      \<and> GetMethod cls g = Some mtd \<and> Method_body mtd = MethodBody e
      \<and> length (formal_params mtd) = length actual_args
      \<and> c = bind_params (formal_params mtd) actual_args
               (Map.empty(''self'' \<mapsto> Share (ClassInstance this cls)))
      \<longrightarrow>
        evaluates (MethodCall object g args) c0 s0 (Inr x, c2, s')
      \<and> (\<forall>rest res. evaluates (Compound (MethodCall object g args # rest)) c0 s0 res
              \<longleftrightarrow> evaluates (Compound rest) c2 s' res)
      \<and> (\<forall>rest res. evaluates (MethodBody (Compound (MethodCall object g args # rest))) c0 s0 res
              \<longleftrightarrow> evaluates (MethodBody (Compound rest)) c2 s' res)
      \<and> evaluates (MethodBody (Compound [MethodCall object g args])) c0 s0 (Inr Empty, c2, s')
      \<and> (\<forall>v y c3 s4. evaluates v c2 s' (Inr y, c3, s4) \<longrightarrow>
            evaluates (MethodBody (Compound [MethodCall object g args, Return v])) c0 s0 (Inr y, c3, s4))
      \<and> (\<forall>k acts st y st'. Call (Execute k) this cls g acts st \<noteq> (Inl (ThrowReturn y), st'))"
  proof (intro allI impI)
    fix object c0 s0 h c1 s1 this cls args actual_args c2 g mtd
    assume a: "evaluates object c0 s0 (Inr h, c1, s1) \<and> TryAs_ClassInstance h = Some (this, cls)
      \<and> evaluates_args args c1 s1 (Inr actual_args, c2, s)
      \<and> GetMethod cls g = Some mtd \<and> Method_body mtd = MethodBody e
      \<and> length (formal_params mtd) = length actual_args
      \<and> c = bind_params (formal_params mtd) actual_args
               (Map.empty(''self'' \<mapsto> Share (ClassInstance this cls)))"
    then have obj: "evaluates object c0 s0 (Inr h, c1, s1)"
      and inst: "TryAs_ClassInstance h = Some (this, cls)"
      and args: "evaluates_args args c1 s1 (Inr actual_args, c2, s)"
      and mtd: "GetMethod cls g = Some mtd" "Method_body mtd = MethodBody e"
               "length (formal_params mtd) = length actual_args"
      and c: "c = bind_params (formal_params mtd) actual_args
               (Map.empty(''self'' \<mapsto> Share (ClassInstance this cls)))"
      by simp_all
    from ret have ret': "evaluates e (bind_params (formal_params mtd) actual_args
               (Map.empty(''self'' \<mapsto> Share (ClassInstance this cls)))) s
             (Inl (ThrowReturn x), c', s')"
      unfolding c .
    show "evaluates (MethodCall object g args) c0 s0 (Inr x, c2, s')
      \<and> (\<forall>rest res. evaluates (Compound (MethodCall object g args # rest)) c0 s0 res
              \<longleftrightarrow> evaluates (Compound rest) c2 s' res)
      \<and> (\<forall>rest res. evaluates (MethodBody (Compound (MethodCall object g args # rest))) c0 s0 res
              \<longleftrightarrow> evaluates (MethodBody (Compound rest)) c2 s' res)
      \<and> evaluates (MethodBody (Compound [MethodCall object g args])) c0 s0 (Inr Empty, c2, s')
      \<and> (\<forall>v y c3 s4. evaluates v c2 s' (Inr y, c3, s4) \<longrightarrow>
            evaluates (MethodBody (Compound [MethodCall object g args, Return v])) c0 s0 (Inr y, c3, s4))
      \<and> (\<forall>k acts st y st'. Call (Execute k) this cls g acts st \<noteq> (Inl (ThrowReturn y), st'))"
      by (rule MethodCall_of_returning_method [OF obj inst args mtd ret'])
  qed
  have print: "\<forall>pre c0 s0 u s1 rest.
        evaluates_print pre True c0 s0 (Inr u, c, s1)
      \<and> s = (if pre = [] then s1 else s1\<lparr>output_stream := output_stream s1 @ '' ''\<rparr>) \<longrightarrow>
        evaluates (Print (pre @ e # rest)) c0 s0 (Inl (ThrowReturn x), c', s')"
  proof (intro allI impI, elim conjE)
    fix pre c0 s0 u s1 rest
    assume p: "evaluates_print pre True c0 s0 (Inr u, c, s1)"
      and s: "s = (if pre = [] then s1 else s1\<lparr>output_stream := output_stream s1 @ '' ''\<rparr>)"
    from ret have "evaluates e c (if pre = [] then s1 else s1\<lparr>output_stream := output_stream s1 @ '' ''\<rparr>)
           (Inl (ThrowReturn x), c', s')"
      unfolding s .
    with p show "evaluates (Print (pre @ e # rest)) c0 s0 (Inl (ThrowReturn x), c', s')"
      by (rule Return_through_Print)
  qed
  show ?thesis
    apply (intro conjI)
    subgoal by (rule u)
    subgoal using MethodBody_never_ThrowReturn by blast
    subgoal by (rule main)
    subgoal using Return_through_Compound [OF _ ret] by blast
    subgoal using u by blast
    subgoal using Return_through_second(7) [OF _ ret] by blast
    subgoal using Return_through_second(8) [OF _ ret] by blast
    subgoal using u by blast
    subgoal by (rule u)
    subgoal by (rule u)
    subgoal by (rule u)
    subgoal using u by blast
    subgoal by (intro allI impI conjI) (rule Return_through_second [OF _ ret]; assumption)+
    subgoal using Return_through_Comparison(1) [OF ret] by blast
    subgoal using Return_through_Comparison(2) [OF _ ret] by blast
    subgoal using Return_through_FieldAssignment [OF _ _ ret] by blast
    subgoal by (rule print)
    subgoal using u by blast
    subgoal using Return_through_MethodCall_args [OF _ _ _ ret] by blast
    subgoal using Return_through_NewInstance [OF _ _ ret] by blast
    subgoal
    proof (intro allI impI)
      fix v c0 s0 y c1 s1
      assume "evaluates v c0 s0 (Inr y, c1, s1)"
      then obtain n where "Execute n v c0 s0 = (Inr y, c1, s1)" unfolding evaluates_def by blast
      then have "Execute (Suc n) (Return v) c0 s0 = (Inl (ThrowReturn y), c1, s1)" by simp
      then show "evaluates (Return v) c0 s0 (Inl (ThrowReturn y), c1, s1)"
        by (rule evaluatesI) simp
    qed
    done
qed

theorem return_locality_witness:
  "evaluates (MethodCall (VariableValue ''self'' []) ''g'' []) self_N initial_State
     (Inr (Share (Number 1)), self_N, (initial_State\<lparr>output_stream := ''in g'' @ [CHR 0x0A]\<rparr>))
 \<and> evaluates (MethodBody (Compound [MethodCall (VariableValue ''self'' []) ''g'' [], Return (NumericConst 2)])) self_N initial_State
     (Inr (Share (Number 2)), self_N, (initial_State\<lparr>output_stream := ''in g'' @ [CHR 0x0A]\<rparr>))
 \<and> evaluates (MethodBody (Compound [MethodCall (VariableValue ''self'' []) ''g'' []])) self_N initial_State
     (Inr Empty, self_N, (initial_State\<lparr>output_stream := ''in g'' @ [CHR 0x0A]\<rparr>))
 \<and> evaluates body_g self_N initial_State
     (Inl (ThrowReturn (Share (Number 1))), self_N, (initial_State\<lparr>output_stream := ''in g'' @ [CHR 0x0A]\<rparr>))
 \<and> evaluates (MethodCall (NewInstance 0 class_N []) ''f'' []) Map.empty initial_State
     (Inr (Share (Number 2)), Map.empty, (initial_State\<lparr>output_stream := ''in g'' @ [CHR 0x0A]\<rparr>))
 \<and> evaluates (MethodBody (Return (NumericConst 1))) Map.empty initial_State
     (Inr (Share (Number 1)), Map.empty, initial_State)
 \<and> \<not> evaluates (MethodBody (Return (NumericConst 1))) Map.empty initial_State
     (Inl (ThrowReturn (Share (Number 1))), Map.empty, initial_State)
 \<and> evaluates (IfElse (Return (NumericConst 1)) (Print [StringConst ''x'']) None) Map.empty initial_State
     (Inl (ThrowReturn (Share (Number 1))), Map.empty, initial_State)
 \<and> evaluates (IfElse (BoolConst False) (Print [StringConst ''x'']) (Some (Return (NumericConst 1)))) Map.empty initial_State
     (Inl (ThrowReturn (Share (Number 1))), Map.empty, initial_State)
 \<and> evaluates (Assignment ''v'' (Return (NumericConst 1))) Map.empty initial_State
     (Inl (ThrowReturn (Share (Number 1))), Map.empty, initial_State)
 \<and> evaluates (Stringify (Return (NumericConst 1))) Map.empty initial_State
     (Inl (ThrowReturn (Share (Number 1))), Map.empty, initial_State)
 \<and> evaluates (Not_stmt (Return (NumericConst 1))) Map.empty initial_State
     (Inl (ThrowReturn (Share (Number 1))), Map.empty, initial_State)
 \<and> evaluates (Return (Return (NumericConst 1))) Map.empty initial_State
     (Inl (ThrowReturn (Share (Number 1))), Map.empty, initial_State)
 \<and> evaluates (Or (Return (NumericConst 1)) (Print [StringConst ''x''])) Map.empty initial_State
     (Inl (ThrowReturn (Share (Number 1))), Map.empty, initial_State)
 \<and> evaluates (And (Return (NumericConst 1)) (Print [StringConst ''x''])) Map.empty initial_State
     (Inl (ThrowReturn (Share (Number 1))), Map.empty, initial_State)
 \<and> evaluates (Add (Return (NumericConst 1)) (Print [StringConst ''x''])) Map.empty initial_State
     (Inl (ThrowReturn (Share (Number 1))), Map.empty, initial_State)
 \<and> evaluates (Sub (Return (NumericConst 1)) (Print [StringConst ''x''])) Map.empty initial_State
     (Inl (ThrowReturn (Share (Number 1))), Map.empty, initial_State)
 \<and> evaluates (Mult (Return (NumericConst 1)) (Print [StringConst ''x''])) Map.empty initial_State
     (Inl (ThrowReturn (Share (Number 1))), Map.empty, initial_State)
 \<and> evaluates (Div (Return (NumericConst 1)) (Print [StringConst ''x''])) Map.empty initial_State
     (Inl (ThrowReturn (Share (Number 1))), Map.empty, initial_State)
 \<and> evaluates (Or (NumericConst 0) (Return (NumericConst 1))) Map.empty initial_State
     (Inl (ThrowReturn (Share (Number 1))), Map.empty, initial_State)
 \<and> evaluates (And (NumericConst 3) (Return (NumericConst 1))) Map.empty initial_State
     (Inl (ThrowReturn (Share (Number 1))), Map.empty, initial_State)
 \<and> evaluates (Add (NumericConst 3) (Return (NumericConst 1))) Map.empty initial_State
     (Inl (ThrowReturn (Share (Number 1))), Map.empty, initial_State)
 \<and> evaluates (Sub (NumericConst 3) (Return (NumericConst 1))) Map.empty initial_State
     (Inl (ThrowReturn (Share (Number 1))), Map.empty, initial_State)
 \<and> evaluates (Mult (NumericConst 3) (Return (NumericConst 1))) Map.empty initial_State
     (Inl (ThrowReturn (Share (Number 1))), Map.empty, initial_State)
 \<and> evaluates (Div (NumericConst 3) (Return (NumericConst 1))) Map.empty initial_State
     (Inl (ThrowReturn (Share (Number 1))), Map.empty, initial_State)
 \<and> evaluates (Comparison Less_cmp (Return (NumericConst 1)) (NumericConst 3)) Map.empty initial_State
     (Inl (ThrowReturn (Share (Number 1))), Map.empty, initial_State)
 \<and> evaluates (Comparison Less_cmp (NumericConst 3) (Return (NumericConst 1))) Map.empty initial_State
     (Inl (ThrowReturn (Share (Number 1))), Map.empty, initial_State)
 \<and> evaluates (FieldAssignment ''self'' [] ''x'' (Return (NumericConst 1))) self_N initial_State
     (Inl (ThrowReturn (Share (Number 1))), self_N, initial_State)
 \<and> evaluates (Print [StringConst ''a'', Return (NumericConst 1), StringConst ''b'']) Map.empty initial_State
     (Inl (ThrowReturn (Share (Number 1))), Map.empty, (initial_State\<lparr>output_stream := ''a ''\<rparr>))
 \<and> evaluates (MethodCall (Return (NumericConst 1)) ''g'' [Print [StringConst ''x'']]) Map.empty initial_State
     (Inl (ThrowReturn (Share (Number 1))), Map.empty, initial_State)
 \<and> evaluates (MethodCall (NewInstance 0 class_G []) ''g'' [NumericConst 3, Return (NumericConst 1), Print [StringConst ''x'']]) Map.empty initial_State
     (Inl (ThrowReturn (Share (Number 1))), Map.empty, initial_State)
 \<and> evaluates (NewInstance 0 class_A [Return (NumericConst 1)]) Map.empty initial_State
     (Inl (ThrowReturn (Share (Number 1))), Map.empty, initial_State)"
proof -
  have r: "evaluates (Return (NumericConst 1)) c s (Inl (ThrowReturn (Share (Number 1))), c, s)" for c s
    by (rule evaluatesI [of 2]) (simp_all add: numeral_2_eq_2)
  have empty: "evaluates (Compound []) c s (Inr Empty, c, s)" for c s
    by (rule evaluatesI [of 1]) simp_all
  have no_args: "evaluates_args [] c s (Inr [], c, s)" for c s
    by (simp add: evaluates_args_def)
  have l0: "evaluates (NumericConst 0) c s (Inr (Share (Number 0)), c, s)"
    and l3: "evaluates (NumericConst 3) c s (Inr (Share (Number 3)), c, s)"
    and bt: "evaluates (BoolConst True) c s (Inr (Share (Bool True)), c, s)"
    and bf: "evaluates (BoolConst False) c s (Inr (Share (Bool False)), c, s)" for c s
    by (rule evaluatesI [of 1]; simp)+
  have t: "\<not> IsTrue (Share (Number 0))" "IsTrue (Share (Number 3))"
    "IsTrue (Share (Bool True))" "\<not> IsTrue (Share (Bool False))"
    by simp_all
  let ?sg = "initial_State\<lparr>output_stream := ''in g'' @ [CHR 0x0A]\<rparr>"
  have pg: "evaluates (Compound [Print [StringConst ''in g'']]) self_N initial_State (Inr Empty, self_N, ?sg)"
    by (rule evaluatesI [of 4]) (simp_all add: eval_nat_numeral initial_State_def)
  have obj: "evaluates (VariableValue ''self'' []) self_N initial_State
      (Inr (Share (ClassInstance 0 class_N)), self_N, initial_State)"
    by (rule evaluatesI [of 1]) (simp_all add: self_N_def)
  have inst: "TryAs_ClassInstance (Share (ClassInstance 0 class_N)) = Some (0, class_N)"
    by simp
  have mtd: "GetMethod class_N ''g'' = Some (Method ''g'' [] (MethodBody body_g))"
    "Method_body (Method ''g'' [] (MethodBody body_g)) = MethodBody body_g"
    "length (formal_params (Method ''g'' [] (MethodBody body_g))) = length ([] :: ObjectHolder list)"
    "self_N = bind_params (formal_params (Method ''g'' [] (MethodBody body_g))) []
                (Map.empty(''self'' \<mapsto> Share (ClassInstance 0 class_N)))"
    by (simp_all add: class_N_def bind_params_def self_N_def)
  have two: "evaluates (NumericConst 2) self_N ?sg (Inr (Share (Number 2)), self_N, ?sg)"
    by (rule evaluatesI [of 1]) simp_all
  from return_locality [OF r [of self_N ?sg], THEN conjunct2, THEN conjunct2, THEN conjunct2, THEN conjunct1, rule_format, OF empty, of "[Print [StringConst ''after return'']]"]
  have i1: "evaluates (Compound [Return (NumericConst 1), Print [StringConst ''after return'']]) self_N ?sg
      (Inl (ThrowReturn (Share (Number 1))), self_N, ?sg)"
    by simp
  from return_locality [OF i1, THEN conjunct2, THEN conjunct2, THEN conjunct2, THEN conjunct2, THEN conjunct2, THEN conjunct1, rule_format, OF conjI [OF bt t(3)], of None]
  have i2: "evaluates (IfElse (BoolConst True)
        (Compound [Return (NumericConst 1), Print [StringConst ''after return'']]) None) self_N ?sg
      (Inl (ThrowReturn (Share (Number 1))), self_N, ?sg)" .
  from return_locality [OF i2, THEN conjunct2, THEN conjunct2, THEN conjunct2, THEN conjunct1, rule_format, OF pg, of "[Print [StringConst ''after if'']]"]
  have n4: "evaluates body_g self_N initial_State
     (Inl (ThrowReturn (Share (Number 1))), self_N, (initial_State\<lparr>output_stream := ''in g'' @ [CHR 0x0A]\<rparr>))"
    by (simp add: body_g_def)
  note call = return_locality [OF n4, THEN conjunct2, THEN conjunct2, THEN conjunct1, rule_format,
      OF conjI [OF obj conjI [OF inst conjI [OF no_args conjI [OF mtd(1) conjI [OF mtd(2) conjI [OF mtd(3) mtd(4)]]]]]]]
  from call [THEN conjunct1]
  have n1: "evaluates (MethodCall (VariableValue ''self'' []) ''g'' []) self_N initial_State
     (Inr (Share (Number 1)), self_N, (initial_State\<lparr>output_stream := ''in g'' @ [CHR 0x0A]\<rparr>))" .
  from call [THEN conjunct2, THEN conjunct2, THEN conjunct2, THEN conjunct2, THEN conjunct1, rule_format, OF two]
  have n2: "evaluates (MethodBody (Compound [MethodCall (VariableValue ''self'' []) ''g'' [], Return (NumericConst 2)])) self_N initial_State
     (Inr (Share (Number 2)), self_N, (initial_State\<lparr>output_stream := ''in g'' @ [CHR 0x0A]\<rparr>))" .
  from call [THEN conjunct2, THEN conjunct2, THEN conjunct2, THEN conjunct1]
  have n3: "evaluates (MethodBody (Compound [MethodCall (VariableValue ''self'' []) ''g'' []])) self_N initial_State
     (Inr Empty, self_N, (initial_State\<lparr>output_stream := ''in g'' @ [CHR 0x0A]\<rparr>))" .
  have n5: "evaluates (MethodCall (NewInstance 0 class_N []) ''f'' []) Map.empty initial_State
     (Inr (Share (Number 2)), Map.empty, (initial_State\<lparr>output_stream := ''in g'' @ [CHR 0x0A]\<rparr>))"
    by (rule evaluatesI [of 12])
       (simp_all add: evaluator_eval class_N_def body_g_def initial_State_def)
  note base = return_locality [OF r [of Map.empty initial_State]]
  from base [THEN conjunct1]
  have p1: "evaluates (MethodBody (Return (NumericConst 1))) Map.empty initial_State
     (Inr (Share (Number 1)), Map.empty, initial_State)" .
  from base [THEN conjunct2, THEN conjunct1, rule_format]
  have p2: "\<not> evaluates (MethodBody (Return (NumericConst 1))) Map.empty initial_State
     (Inl (ThrowReturn (Share (Number 1))), Map.empty, initial_State)" .
  from base [THEN conjunct2, THEN conjunct2, THEN conjunct2, THEN conjunct2, THEN conjunct1, rule_format]
  have p5: "evaluates (IfElse (Return (NumericConst 1)) (Print [StringConst ''x'']) None) Map.empty initial_State
     (Inl (ThrowReturn (Share (Number 1))), Map.empty, initial_State)" .
  from base [THEN conjunct2, THEN conjunct2, THEN conjunct2, THEN conjunct2, THEN conjunct2, THEN conjunct2, THEN conjunct1, rule_format, OF conjI [OF bf t(4)]]
  have p7: "evaluates (IfElse (BoolConst False) (Print [StringConst ''x'']) (Some (Return (NumericConst 1)))) Map.empty initial_State
     (Inl (ThrowReturn (Share (Number 1))), Map.empty, initial_State)" .
  from base [THEN conjunct2, THEN conjunct2, THEN conjunct2, THEN conjunct2, THEN conjunct2, THEN conjunct2, THEN conjunct2, THEN conjunct1, rule_format]
  have p8: "evaluates (Assignment ''v'' (Return (NumericConst 1))) Map.empty initial_State
     (Inl (ThrowReturn (Share (Number 1))), Map.empty, initial_State)" .
  from base [THEN conjunct2, THEN conjunct2, THEN conjunct2, THEN conjunct2, THEN conjunct2, THEN conjunct2, THEN conjunct2, THEN conjunct2, THEN conjunct1]
  have p9: "evaluates (Stringify (Return (NumericConst 1))) Map.empty initial_State
     (Inl (ThrowReturn (Share (Number 1))), Map.empty, initial_State)" .
  from base [THEN conjunct2, THEN conjunct2, THEN conjunct2, THEN conjunct2, THEN conjunct2, THEN conjunct2, THEN conjunct2, THEN conjunct2, THEN conjunct2, THEN conjunct1]
  have p10: "evaluates (Not_stmt (Return (NumericConst 1))) Map.empty initial_State
     (Inl (ThrowReturn (Share (Number 1))), Map.empty, initial_State)" .
  from base [THEN conjunct2, THEN conjunct2, THEN conjunct2, THEN conjunct2, THEN conjunct2, THEN conjunct2, THEN conjunct2, THEN conjunct2, THEN conjunct2, THEN conjunct2, THEN conjunct1]
  have p11: "evaluates (Return (Return (NumericConst 1))) Map.empty initial_State
     (Inl (ThrowReturn (Share (Number 1))), Map.empty, initial_State)" .
  note first = base [THEN conjunct2, THEN conjunct2, THEN conjunct2, THEN conjunct2, THEN conjunct2, THEN conjunct2, THEN conjunct2, THEN conjunct2, THEN conjunct2, THEN conjunct2, THEN conjunct2, THEN conjunct1, rule_format, of "Print [StringConst ''x'']"]
  from first [THEN conjunct1]
  have p12a: "evaluates (Or (Return (NumericConst 1)) (Print [StringConst ''x''])) Map.empty initial_State
     (Inl (ThrowReturn (Share (Number 1))), Map.empty, initial_State)" .
  from first [THEN conjunct2, THEN conjunct1]
  have p12b: "evaluates (And (Return (NumericConst 1)) (Print [StringConst ''x''])) Map.empty initial_State
     (Inl (ThrowReturn (Share (Number 1))), Map.empty, initial_State)" .
  from first [THEN conjunct2, THEN conjunct2, THEN conjunct1]
  have p12c: "evaluates (Add (Return (NumericConst 1)) (Print [StringConst ''x''])) Map.empty initial_State
     (Inl (ThrowReturn (Share (Number 1))), Map.empty, initial_State)" .
  from first [THEN conjunct2, THEN conjunct2, THEN conjunct2, THEN conjunct1]
  have p12d: "evaluates (Sub (Return (NumericConst 1)) (Print [StringConst ''x''])) Map.empty initial_State
     (Inl (ThrowReturn (Share (Number 1))), Map.empty, initial_State)" .
  from first [THEN conjunct2, THEN conjunct2, THEN conjunct2, THEN conjunct2, THEN conjunct1]
  have p12e: "evaluates (Mult (Return (NumericConst 1)) (Print [StringConst ''x''])) Map.empty initial_State
     (Inl (ThrowReturn (Share (Number 1))), Map.empty, initial_State)" .
  from first [THEN conjunct2, THEN conjunct2, THEN conjunct2, THEN conjunct2, THEN conjunct2]
  have p12f: "evaluates (Div (Return (NumericConst 1)) (Print [StringConst ''x''])) Map.empty initial_State
     (Inl (ThrowReturn (Share (Number 1))), Map.empty, initial_State)" .
  note second0 = base [THEN conjunct2, THEN conjunct2, THEN conjunct2, THEN conjunct2, THEN conjunct2, THEN conjunct2, THEN conjunct2, THEN conjunct2, THEN conjunct2, THEN conjunct2, THEN conjunct2, THEN conjunct2, THEN conjunct1, rule_format, OF l0]
  note second3 = base [THEN conjunct2, THEN conjunct2, THEN conjunct2, THEN conjunct2, THEN conjunct2, THEN conjunct2, THEN conjunct2, THEN conjunct2, THEN conjunct2, THEN conjunct2, THEN conjunct2, THEN conjunct2, THEN conjunct1, rule_format, OF l3]
  from second0 [THEN conjunct1, rule_format, OF t(1)]
  have p13a: "evaluates (Or (NumericConst 0) (Return (NumericConst 1))) Map.empty initial_State
     (Inl (ThrowReturn (Share (Number 1))), Map.empty, initial_State)" .
  from second3 [THEN conjunct2, THEN conjunct1, rule_format, OF t(2)]
  have p13b: "evaluates (And (NumericConst 3) (Return (NumericConst 1))) Map.empty initial_State
     (Inl (ThrowReturn (Share (Number 1))), Map.empty, initial_State)" .
  from second3 [THEN conjunct2, THEN conjunct2, THEN conjunct1]
  have p13c: "evaluates (Add (NumericConst 3) (Return (NumericConst 1))) Map.empty initial_State
     (Inl (ThrowReturn (Share (Number 1))), Map.empty, initial_State)" .
  from second3 [THEN conjunct2, THEN conjunct2, THEN conjunct2, THEN conjunct1]
  have p13d: "evaluates (Sub (NumericConst 3) (Return (NumericConst 1))) Map.empty initial_State
     (Inl (ThrowReturn (Share (Number 1))), Map.empty, initial_State)" .
  from second3 [THEN conjunct2, THEN conjunct2, THEN conjunct2, THEN conjunct2, THEN conjunct1]
  have p13e: "evaluates (Mult (NumericConst 3) (Return (NumericConst 1))) Map.empty initial_State
     (Inl (ThrowReturn (Share (Number 1))), Map.empty, initial_State)" .
  from second3 [THEN conjunct2, THEN conjunct2, THEN conjunct2, THEN conjunct2, THEN conjunct2]
  have p13f: "evaluates (Div (NumericConst 3) (Return (NumericConst 1))) Map.empty initial_State
     (Inl (ThrowReturn (Share (Number 1))), Map.empty, initial_State)" .
  from base [THEN conjunct2, THEN conjunct2, THEN conjunct2, THEN conjunct2, THEN conjunct2, THEN conjunct2, THEN conjunct2, THEN conjunct2, THEN conjunct2, THEN conjunct2, THEN conjunct2, THEN conjunct2, THEN conjunct2, THEN conjunct1, rule_format, OF l3]
  have p14: "evaluates (Comparison Less_cmp (Return (NumericConst 1)) (NumericConst 3)) Map.empty initial_State
     (Inl (ThrowReturn (Share (Number 1))), Map.empty, initial_State)" .
  from base [THEN conjunct2, THEN conjunct2, THEN conjunct2, THEN conjunct2, THEN conjunct2, THEN conjunct2, THEN conjunct2, THEN conjunct2, THEN conjunct2, THEN conjunct2, THEN conjunct2, THEN conjunct2, THEN conjunct2, THEN conjunct2, THEN conjunct1, rule_format, OF l3]
  have p15: "evaluates (Comparison Less_cmp (NumericConst 3) (Return (NumericConst 1))) Map.empty initial_State
     (Inl (ThrowReturn (Share (Number 1))), Map.empty, initial_State)" .
  have var: "VariableValue_Execute ''self'' [] self_N initial_State = Inr (Share (ClassInstance 0 class_N))"
    by (simp add: self_N_def)
  from return_locality [OF r [of self_N initial_State], THEN conjunct2, THEN conjunct2, THEN conjunct2, THEN conjunct2, THEN conjunct2, THEN conjunct2, THEN conjunct2, THEN conjunct2, THEN conjunct2, THEN conjunct2, THEN conjunct2, THEN conjunct2, THEN conjunct2, THEN conjunct2, THEN conjunct2, THEN conjunct1, rule_format, OF conjI [OF var inst]]
  have p16: "evaluates (FieldAssignment ''self'' [] ''x'' (Return (NumericConst 1))) self_N initial_State
     (Inl (ThrowReturn (Share (Number 1))), self_N, initial_State)" .
  have pa: "evaluates_print [StringConst ''a''] True Map.empty initial_State
      (Inr (), Map.empty, initial_State\<lparr>output_stream := ''a''\<rparr>)"
    unfolding evaluates_print_def
    by (rule exI [of _ 2]) (simp add: numeral_2_eq_2 initial_State_def)
  have sp: "initial_State\<lparr>output_stream := ''a ''\<rparr>
      = (if [StringConst ''a''] = [] then initial_State\<lparr>output_stream := ''a''\<rparr>
         else initial_State\<lparr>output_stream := ''a''\<rparr>
                \<lparr>output_stream := output_stream (initial_State\<lparr>output_stream := ''a''\<rparr>) @ '' ''\<rparr>)"
    by simp
  from return_locality [OF r [of Map.empty "initial_State\<lparr>output_stream := ''a ''\<rparr>"], THEN conjunct2, THEN conjunct2, THEN conjunct2, THEN conjunct2, THEN conjunct2, THEN conjunct2, THEN conjunct2, THEN conjunct2, THEN conjunct2, THEN conjunct2, THEN conjunct2, THEN conjunct2, THEN conjunct2, THEN conjunct2, THEN conjunct2, THEN conjunct2, THEN conjunct1, rule_format,
         OF conjI [OF pa sp], of "[StringConst ''b'']"]
  have p17: "evaluates (Print [StringConst ''a'', Return (NumericConst 1), StringConst ''b'']) Map.empty initial_State
     (Inl (ThrowReturn (Share (Number 1))), Map.empty, (initial_State\<lparr>output_stream := ''a ''\<rparr>))"
    by simp
  from base [THEN conjunct2, THEN conjunct2, THEN conjunct2, THEN conjunct2, THEN conjunct2, THEN conjunct2, THEN conjunct2, THEN conjunct2, THEN conjunct2, THEN conjunct2, THEN conjunct2, THEN conjunct2, THEN conjunct2, THEN conjunct2, THEN conjunct2, THEN conjunct2, THEN conjunct2, THEN conjunct1, rule_format]
  have p18: "evaluates (MethodCall (Return (NumericConst 1)) ''g'' [Print [StringConst ''x'']]) Map.empty initial_State
     (Inl (ThrowReturn (Share (Number 1))), Map.empty, initial_State)" .
  have new: "evaluates (NewInstance 0 class_G []) Map.empty initial_State
      (Inr (Share (ClassInstance 0 class_G)), Map.empty, initial_State)"
    by (rule evaluatesI [of 1]) (simp_all add: class_G_def HasMethod_def INIT_METHOD_def)
  have inst_G: "TryAs_ClassInstance (Share (ClassInstance 0 class_G)) = Some (0, class_G)"
    by simp
  have three: "evaluates_args [NumericConst 3] Map.empty initial_State
      (Inr [Share (Number 3)], Map.empty, initial_State)"
    unfolding evaluates_args_def by (rule exI [of _ 1]) simp
  from base [THEN conjunct2, THEN conjunct2, THEN conjunct2, THEN conjunct2, THEN conjunct2, THEN conjunct2, THEN conjunct2, THEN conjunct2, THEN conjunct2, THEN conjunct2, THEN conjunct2, THEN conjunct2, THEN conjunct2, THEN conjunct2, THEN conjunct2, THEN conjunct2, THEN conjunct2, THEN conjunct2, THEN conjunct1, rule_format, OF conjI [OF new conjI [OF inst_G three]], of "''g''" "[Print [StringConst ''x'']]"]
  have p19: "evaluates (MethodCall (NewInstance 0 class_G []) ''g'' [NumericConst 3, Return (NumericConst 1), Print [StringConst ''x'']]) Map.empty initial_State
     (Inl (ThrowReturn (Share (Number 1))), Map.empty, initial_State)"
    by simp
  have init: "HasMethod class_A INIT_METHOD (length ([] @ Return (NumericConst 1) # []))"
    by (simp add: class_A_def HasMethod_def INIT_METHOD_def)
  from base [THEN conjunct2, THEN conjunct2, THEN conjunct2, THEN conjunct2, THEN conjunct2, THEN conjunct2, THEN conjunct2, THEN conjunct2, THEN conjunct2, THEN conjunct2, THEN conjunct2, THEN conjunct2, THEN conjunct2, THEN conjunct2, THEN conjunct2, THEN conjunct2, THEN conjunct2, THEN conjunct2, THEN conjunct2, THEN conjunct1, rule_format, OF conjI [OF init no_args], of 0]
  have p20: "evaluates (NewInstance 0 class_A [Return (NumericConst 1)]) Map.empty initial_State
     (Inl (ThrowReturn (Share (Number 1))), Map.empty, initial_State)"
    by simp
  from n1 n2 n3 n4 n5 p1 p2 p5 p7 p8 p9 p10 p11 p12a p12b p12c p12d p12e p12f p13a p13b p13c p13d p13e p13f p14 p15 p16 p17 p18 p19 p20
  show ?thesis by (intro conjI)
qed

text \<open>
  \<^verbatim>\<open>Comp\<close> on two holders of the same primitive kind.
\<close>

lemma Comp_same_kind:
  assumes "same_primitive_kind a b"
  shows "\<exists>eq lt gt. Comp a b equal_to = Inr eq \<and> Comp a b less = Inr lt \<and> Comp b a less = Inr gt
           \<and> exactly_one (lt \<and> \<not> eq) eq (gt \<and> \<not> eq)"
proof -
  consider (bool) x y where "TryAs_Bool a = Some x" "TryAs_Bool b = Some y"
    | (num) x y where "TryAs_Bool a = None \<or> TryAs_Bool b = None" "TryAs_Number a = Some x" "TryAs_Number b = Some y"
    | (str) x y where "TryAs_Bool a = None \<or> TryAs_Bool b = None" "TryAs_Number a = None \<or> TryAs_Number b = None"
         "TryAs_String a = Some x" "TryAs_String b = Some y"
    using assms unfolding same_primitive_kind_def by (metis not_Some_eq)
  then show ?thesis
  proof cases
    case bool
    then show ?thesis
      by (auto simp: Comp_def pred_def exactly_one_def)
  next
    case num
    have "Comp a b equal_to = Inr (sint x = sint y)" "Comp a b less = Inr (sint x < sint y)"
      "Comp b a less = Inr (sint y < sint x)"
      using num by (auto simp: Comp_def pred_def split: option.splits)
    then show ?thesis
      by (auto simp: exactly_one_def)
  next
    case str
    have "Comp a b equal_to = Inr (x = y)" "Comp a b less = Inr (x < y)"
      "Comp b a less = Inr (y < x)"
      using str by (auto simp: Comp_def pred_def split: option.splits)
    then show ?thesis
      by (auto simp: exactly_one_def)
  qed
qed

text \<open>
  Claim C7, amended: for two holders of the same primitive kind (both \<^verbatim>\<open>Bool\<close>, both
  \<^verbatim>\<open>Number\<close> or both \<^verbatim>\<open>String\<close>) \<^verbatim>\<open>Equal\<close> and \<^verbatim>\<open>Less\<close> return without an error and
  without changing the state, and exactly one of \<open>Less a b \<and> \<not> Equal a b\<close>, \<open>Equal a b\<close>,
  \<open>Less b a \<and> \<not> Equal a b\<close> holds.
\<close>

theorem comparison_totality:
  assumes "same_primitive_kind a b"
  shows "\<exists>eq lt gt. Equal ex a b s = (Inr eq, s) \<and> Less ex a b s = (Inr lt, s) \<and> Less ex b a s = (Inr gt, s)
           \<and> exactly_one (lt \<and> \<not> eq) eq (gt \<and> \<not> eq)"
  using Comp_same_kind [OF assms] by (auto simp: Equal_def Less_def)

theorem comparison_totality_witness:
  "same_primitive_kind (Own (Number 1)) (Share (Number 2))
 \<and> same_primitive_kind (Share (String ''ab'')) (Own (String ''b''))
 \<and> same_primitive_kind (Own (Bool False)) (Own (Bool False))
 \<and> (\<exists>eq lt gt. Equal (Execute 0) (Own (Number 1)) (Share (Number 2)) initial_State = (Inr eq, initial_State)
       \<and> Less (Execute 0) (Own (Number 1)) (Share (Number 2)) initial_State = (Inr lt, initial_State)
       \<and> Less (Execute 0) (Share (Number 2)) (Own (Number 1)) initial_State = (Inr gt, initial_State)
       \<and> exactly_one (lt \<and> \<not> eq) eq (gt \<and> \<not> eq))"
proof -
  have k: "same_primitive_kind (Own (Number 1)) (Share (Number 2))"
    "same_primitive_kind (Share (String ''ab'')) (Own (String ''b''))"
    "same_primitive_kind (Own (Bool False)) (Own (Bool False))"
    by (simp_all add: same_primitive_kind_def)
  from comparison_totality [OF k(1), of "Execute 0" initial_State] k show ?thesis by blast
qed

text \<open>
  Claim C7 as stated fails on a pair of two different primitive kinds: comparing
  \<open>Bool True\<close> with \<open>Number 1\<close> throws "Cannot compare objects" from \<^verbatim>\<open>Equal\<close> and from
  \<^verbatim>\<open>Less\<close>, in both orders.
\<close>

theorem comparison_totality_counterexample:
  "Equal (Execute 0) (Own (Bool True)) (Own (Number 1)) initial_State
     = (Inl (ThrowError CannotCompare), initial_State)
 \<and> Less (Execute 0) (Own (Bool True)) (Own (Number 1)) initial_State
     = (Inl (ThrowError CannotCompare), initial_State)
 \<and> Less (Execute 0) (Own (Number 1)) (Own (Bool True)) initial_State
     = (Inl (ThrowError CannotCompare), initial_State)"
  by (simp add: Equal_def Less_def Comp_def)

text \<open>\<^verbatim>\<open>Print(Stringify(e))\<close> and \<^verbatim>\<open>Print(e)\<close>, with the depth of each evaluation.\<close>

lemma Print_Stringify_depth:
  "Execute (Suc (Suc n)) (Print [Stringify e]) c s = Execute (Suc n) (Print [e]) c s"
  by (auto simp: EMPTY_OBJECT_def split: prod.splits sum.splits option.splits)

text \<open>
  Claim C9. \<^verbatim>\<open>Print(Stringify(e))\<close> evaluates exactly as \<^verbatim>\<open>Print(e)\<close> does: to the same
  result, closure, instance fields and output, or not at all. \<^verbatim>\<open>Stringify\<close> returns an
  owning \<^verbatim>\<open>String\<close> holder with the text \<^verbatim>\<open>Print\<close> writes for the value, which is
  \<^verbatim>\<open>None\<close> for the empty holder.
\<close>

theorem Stringify_Print_consistency:
  "(\<forall>res. evaluates (Print [Stringify e]) c s res \<longleftrightarrow> evaluates (Print [e]) c s res)
 \<and> (\<forall>c1 s1. evaluates e c s (Inr Empty, c1, s1) \<longrightarrow>
       evaluates (Stringify e) c s (Inr (Own (String ''None'')), c1, s1)
     \<and> evaluates (Print [e]) c s
         (Inr Empty, c1, s1\<lparr>output_stream := output_stream s1 @ ''None'' @ [CHR 0x0A]\<rparr>))
 \<and> (\<forall>h obj c1 s1 n str s2.
       evaluates e c s (Inr h, c1, s1) \<and> Get h = Some obj
         \<and> Object_Print n (Execute n) obj s1 = (Inr str, s2) \<longrightarrow>
       evaluates (Stringify e) c s (Inr (Own (String str)), c1, s2)
     \<and> evaluates (Print [e]) c s
         (Inr Empty, c1, s2\<lparr>output_stream := output_stream s2 @ str @ [CHR 0x0A]\<rparr>))"
proof (intro conjI allI impI)
  fix res
  show "evaluates (Print [Stringify e]) c s res \<longleftrightarrow> evaluates (Print [e]) c s res"
  proof (rule evaluates_cong [where N = 0 and f = "\<lambda>n. Suc (Suc n)" and g = Suc])
    show "Execute (Suc (Suc n)) (Print [Stringify e]) c s = Execute (Suc n) (Print [e]) c s" for n
      by (rule Print_Stringify_depth)
  qed simp_all
next
  fix c1 s1
  assume "evaluates e c s (Inr Empty, c1, s1)"
  then obtain n where n: "Execute n e c s = (Inr Empty, c1, s1)" unfolding evaluates_def by blast
  then have "Execute (Suc n) (Stringify e) c s = (Inr (Own (String ''None'')), c1, s1)"
    by (simp add: EMPTY_OBJECT_def)
  then show "evaluates (Stringify e) c s (Inr (Own (String ''None'')), c1, s1)"
    by (rule evaluatesI) simp
  from n have "Execute (Suc n) (Print [e]) c s
      = (Inr Empty, c1, s1\<lparr>output_stream := output_stream s1 @ ''None'' @ [CHR 0x0A]\<rparr>)"
    by (simp add: EMPTY_OBJECT_def)
  then show "evaluates (Print [e]) c s
         (Inr Empty, c1, s1\<lparr>output_stream := output_stream s1 @ ''None'' @ [CHR 0x0A]\<rparr>)"
    by (rule evaluatesI) simp
next
  fix h obj c1 s1 n str s2
  assume a: "evaluates e c s (Inr h, c1, s1) \<and> Get h = Some obj
         \<and> Object_Print n (Execute n) obj s1 = (Inr str, s2)"
  from a evaluates_from obtain k where k: "\<forall>m\<ge>k. Execute m e c s = (Inr h, c1, s1)" by blast
  define N where "N = max n k"
  have e: "Execute N e c s = (Inr h, c1, s1)" using k by (simp add: N_def)
  have "n \<le> N" by (simp add: N_def)
  from Object_Print_le [OF this] a have p: "Object_Print N (Execute N) obj s1 = (Inr str, s2)"
    by simp
  from e p a have "Execute (Suc N) (Stringify e) c s = (Inr (Own (String str)), c1, s2)"
    by simp
  then show "evaluates (Stringify e) c s (Inr (Own (String str)), c1, s2)"
    by (rule evaluatesI) simp
  from e p a have "Execute (Suc N) (Print [e]) c s
      = (Inr Empty, c1, s2\<lparr>output_stream := output_stream s2 @ str @ [CHR 0x0A]\<rparr>)"
    by simp
  then show "evaluates (Print [e]) c s
         (Inr Empty, c1, s2\<lparr>output_stream := output_stream s2 @ str @ [CHR 0x0A]\<rparr>)"
    by (rule evaluatesI) simp
qed

theorem Stringify_Print_consistency_witness:
  "evaluates (Print [Stringify (NewInstance 0 class_P [])]) Map.empty initial_State
     (Inr Empty, Map.empty, initial_State\<lparr>output_stream := ''side'' @ [CHR 0x0A] @ ''P'' @ [CHR 0x0A]\<rparr>)
 \<and> evaluates (Print [NewInstance 0 class_P []]) Map.empty initial_State
     (Inr Empty, Map.empty, initial_State\<lparr>output_stream := ''side'' @ [CHR 0x0A] @ ''P'' @ [CHR 0x0A]\<rparr>)
 \<and> evaluates (Stringify None_stmt) Map.empty initial_State
     (Inr (Own (String ''None'')), Map.empty, initial_State)
 \<and> evaluates (Print [None_stmt]) Map.empty initial_State
     (Inr Empty, Map.empty, initial_State\<lparr>output_stream := ''None'' @ [CHR 0x0A]\<rparr>)
 \<and> evaluates (Print [Stringify None_stmt]) Map.empty initial_State
     (Inr Empty, Map.empty, initial_State\<lparr>output_stream := ''None'' @ [CHR 0x0A]\<rparr>)"
proof -
  have p: "evaluates (Print [NewInstance 0 class_P []]) Map.empty initial_State
     (Inr Empty, Map.empty, initial_State\<lparr>output_stream := ''side'' @ [CHR 0x0A] @ ''P'' @ [CHR 0x0A]\<rparr>)"
    by (rule evaluatesI [of 5]) (simp_all add: evaluator_eval class_P_def initial_State_def)
  have n: "evaluates None_stmt Map.empty initial_State (Inr Empty, Map.empty, initial_State)"
    by (rule evaluatesI [of 1]) simp_all
  have o: "output_stream initial_State = []" by (simp add: initial_State_def)
  note a = Stringify_Print_consistency [of "NewInstance 0 class_P []" Map.empty initial_State]
  note b = Stringify_Print_consistency [of None_stmt Map.empty initial_State]
  from a [THEN conjunct1, rule_format, THEN iffD2, OF p]
  have 1: "evaluates (Print [Stringify (NewInstance 0 class_P [])]) Map.empty initial_State
     (Inr Empty, Map.empty, initial_State\<lparr>output_stream := ''side'' @ [CHR 0x0A] @ ''P'' @ [CHR 0x0A]\<rparr>)" .
  note bn = b [THEN conjunct2, THEN conjunct1, rule_format, OF n]
  from bn [THEN conjunct1]
  have 2: "evaluates (Stringify None_stmt) Map.empty initial_State
       (Inr (Own (String ''None'')), Map.empty, initial_State)" .
  from bn [THEN conjunct2]
  have 3: "evaluates (Print [None_stmt]) Map.empty initial_State
     (Inr Empty, Map.empty, initial_State\<lparr>output_stream := ''None'' @ [CHR 0x0A]\<rparr>)"
    by (simp only: o append_Nil)
  from b [THEN conjunct1, rule_format, THEN iffD2, OF 3]
  have 4: "evaluates (Print [Stringify None_stmt]) Map.empty initial_State
     (Inr Empty, Map.empty, initial_State\<lparr>output_stream := ''None'' @ [CHR 0x0A]\<rparr>)" .
  from 1 p 2 3 4 show ?thesis by (intro conjI)
qed

section \<open>Properties of the scanner\<close>

lemma tokens_after_Eof_line_start:
  "input_stream lx = [] \<Longrightarrow> start_of_line lx \<Longrightarrow> unat (current_indent lx) = k \<Longrightarrow>
     tokens_after lx = Inr (replicate k Dedent_tok @ [Eof_tok])"
proof (induction k arbitrary: lx)
  case 0
  then have "current_indent lx = 0" by (simp add: unat_eq_0)
  with 0 show ?case
    by (simp add: tokens_after.simps [of lx] ReadNextToken.simps [of lx] peek_def ParseEOF_def)
next
  case (Suc k)
  let ?lx' = "lx\<lparr>current_indent := current_indent lx - 1, current_token := Dedent_tok\<rparr>"
  from Suc.prems have pos: "0 < current_indent lx"
    by (metis Zero_not_Suc unat_0 word_gt_0)
  then have r: "ReadNextToken lx = Inr ?lx'"
    using Suc.prems by (simp add: ReadNextToken.simps [of lx] peek_def ParseEOF_def)
  have "unat (current_indent lx) = Suc (unat (current_indent lx - 1))"
    by (rule word_dec_unat [OF pos])
  with Suc.prems have "unat (current_indent ?lx') = k" by simp
  with Suc.IH [of ?lx'] Suc.prems have "tokens_after ?lx' = Inr (replicate k Dedent_tok @ [Eof_tok])"
    by simp
  with r show ?case
    by (simp add: tokens_after.simps [of lx])
qed

lemma tokens_after_Eof:
  assumes "input_stream lx = []"
  shows "tokens_after lx =
     Inr ((if start_of_line lx then [] else [Newline_tok])
          @ replicate (unat (current_indent lx)) Dedent_tok @ [Eof_tok])"
proof (cases "start_of_line lx")
  case True
  with assms tokens_after_Eof_line_start [of lx] show ?thesis by simp
next
  case False
  let ?lx' = "(NextLine lx)\<lparr>current_token := Newline_tok\<rparr>"
  have r: "ReadNextToken lx = Inr ?lx'"
    using assms False by (simp add: ReadNextToken.simps [of lx] peek_def ParseEOF_def)
  have "input_stream ?lx' = []" "start_of_line ?lx'" "current_indent ?lx' = current_indent lx"
    using assms by (simp_all add: NextLine_def ReadLine_def)
  with tokens_after_Eof_line_start [of ?lx'] have
    "tokens_after ?lx' = Inr (replicate (unat (current_indent lx)) Dedent_tok @ [Eof_tok])"
    by simp
  with r False show ?thesis
    by (simp add: tokens_after.simps [of lx])
qed

lemma ReadNextToken_after_Eof:
  assumes "ReadNextToken lx = Inr lx'" and "current_token lx' = Eof_tok"
  shows "ReadNextToken lx' = Inr lx'"
proof -
  obtain lx0 where d: "direct lx0" and r: "ReadNextToken lx0 = Inr lx'"
    using ReadNextToken_direct [of lx] assms(1) by auto
  from d r show ?thesis
  proof (cases rule: ReadNextToken_direct_cases)
    case eof
    with assms(2) have "start_of_line lx0" "\<not> 0 < current_indent lx0" "lx' = lx0\<lparr>current_token := Eof_tok\<rparr>"
      by (auto simp: ParseEOF_def split: if_splits)
    with eof(1) show ?thesis
      by (subst ReadNextToken.simps) (simp add: ParseEOF_def)
  next
    case newline
    with assms(2) show ?thesis by simp
  next
    case indent
    with assms(2) ParseIndent_step(1) [OF indent(2,1)] show ?thesis by auto
  next
    case (token lx1)
    with assms(2) ParseToken_step [OF token(2,1)] show ?thesis by simp
  qed
qed

text \<open>
  Claim C5, amended: for every input on which no token fails to be read, the stream ends
  with \<^verbatim>\<open>Eof\<close>, holds no other \<^verbatim>\<open>Eof\<close>, and has as many \<^verbatim>\<open>Indent\<close> as \<^verbatim>\<open>Dedent\<close> tokens
  before it. At the end of the input the scanner returns \<^verbatim>\<open>Newline\<close> if the last line is
  not ended, then one \<^verbatim>\<open>Dedent\<close> for each level of indentation still open, then \<^verbatim>\<open>Eof\<close>.
  Once \<^verbatim>\<open>Eof\<close> is returned, every later call returns it again and changes nothing.
  (That a stream always ends or fails is the termination of \<open>tokens_after\<close>.)
\<close>

theorem token_stream_ends_balanced:
  "(\<forall>ts. Lexer_tokens input = Inr ts \<longrightarrow>
      (\<exists>front. ts = front @ [Eof_tok] \<and> Eof_tok \<notin> set front
         \<and> count_list front Indent_tok = count_list front Dedent_tok))
 \<and> (\<forall>lx. input_stream lx = [] \<longrightarrow>
      tokens_after lx =
        Inr ((if start_of_line lx then [] else [Newline_tok])
             @ replicate (unat (current_indent lx)) Dedent_tok @ [Eof_tok]))
 \<and> (\<forall>lx lx'. ReadNextToken lx = Inr lx' \<and> current_token lx' = Eof_tok \<longrightarrow>
      ReadNextToken lx' = Inr lx')"
proof (intro conjI allI impI)
  fix ts
  assume "Lexer_tokens input = Inr ts"
  from tokens_after_balanced [OF this [unfolded Lexer_tokens_def]]
  show "\<exists>front. ts = front @ [Eof_tok] \<and> Eof_tok \<notin> set front
         \<and> count_list front Indent_tok = count_list front Dedent_tok"
    by auto
next
  fix lx :: Lexer
  assume "input_stream lx = []"
  then show "tokens_after lx =
        Inr ((if start_of_line lx then [] else [Newline_tok])
             @ replicate (unat (current_indent lx)) Dedent_tok @ [Eof_tok])"
    by (rule tokens_after_Eof)
next
  fix lx lx' :: Lexer
  assume "ReadNextToken lx = Inr lx' \<and> current_token lx' = Eof_tok"
  then show "ReadNextToken lx' = Inr lx'"
    using ReadNextToken_after_Eof by blast
qed

theorem token_stream_ends_balanced_witness:
  "Lexer_tokens (''if x:'' @ [CHR 0x0A] @ ''  y'')
     = Inr ([If_tok, Id_tok ''x'', Char_tok CHR '':'', Newline_tok, Indent_tok, Id_tok ''y'',
            Newline_tok, Dedent_tok] @ [Eof_tok])
 \<and> count_list [If_tok, Id_tok ''x'', Char_tok CHR '':'', Newline_tok, Indent_tok, Id_tok ''y'',
            Newline_tok, Dedent_tok] Indent_tok
    = count_list [If_tok, Id_tok ''x'', Char_tok CHR '':'', Newline_tok, Indent_tok, Id_tok ''y'',
            Newline_tok, Dedent_tok] Dedent_tok
 \<and> tokens_after \<lparr>input_stream = [], start_of_line = False, current_indent = 2,
                   line_indent = 2, current_token = Id_tok ''y''\<rparr>
     = Inr [Newline_tok, Dedent_tok, Dedent_tok, Eof_tok]"
proof -
  have t: "Lexer_tokens (''if x:'' @ [CHR 0x0A] @ ''  y'')
     = Inr ([If_tok, Id_tok ''x'', Char_tok CHR '':'', Newline_tok, Indent_tok, Id_tok ''y'',
            Newline_tok, Dedent_tok] @ [Eof_tok])"
    by (simp add: lexer_eval cong: sum.case_cong_weak)
  from token_stream_ends_balanced [of "''if x:'' @ [CHR 0x0A] @ ''  y''"] t
  have "\<exists>front. [If_tok, Id_tok ''x'', Char_tok CHR '':'', Newline_tok, Indent_tok, Id_tok ''y'',
            Newline_tok, Dedent_tok] @ [Eof_tok] = front @ [Eof_tok] \<and> Eof_tok \<notin> set front
         \<and> count_list front Indent_tok = count_list front Dedent_tok"
    by blast
  then have c: "count_list [If_tok, Id_tok ''x'', Char_tok CHR '':'', Newline_tok, Indent_tok, Id_tok ''y'',
            Newline_tok, Dedent_tok] Indent_tok
    = count_list [If_tok, Id_tok ''x'', Char_tok CHR '':'', Newline_tok, Indent_tok, Id_tok ''y'',
            Newline_tok, Dedent_tok] Dedent_tok"
    by (metis append_same_eq)
  have "tokens_after \<lparr>input_stream = [], start_of_line = False, current_indent = 2,
                   line_indent = 2, current_token = Id_tok ''y''\<rparr>
     = Inr [Newline_tok, Dedent_tok, Dedent_tok, Eof_tok]"
  proof -
    from token_stream_ends_balanced [of "[]"]
    have "tokens_after \<lparr>input_stream = [], start_of_line = False, current_indent = 2,
                   line_indent = 2, current_token = Id_tok ''y''\<rparr>
       = Inr ((if start_of_line \<lparr>input_stream = [], start_of_line = False, current_indent = 2,
                   line_indent = 2, current_token = Id_tok ''y''\<rparr> then [] else [Newline_tok])
             @ replicate (unat (current_indent \<lparr>input_stream = [], start_of_line = False, current_indent = 2,
                   line_indent = 2, current_token = Id_tok ''y''\<rparr>)) Dedent_tok @ [Eof_tok])"
      by simp
    moreover have "replicate 2 Dedent_tok = [Dedent_tok, Dedent_tok]"
      by (simp add: numeral_2_eq_2)
    ultimately show ?thesis by simp
  qed
  with t c show ?thesis by blast
qed

text \<open>
  Claim C5 as stated fails on an input with a string that is not closed: \<^verbatim>\<open>ReadString\<close>
  throws and there is no stream.
\<close>

theorem token_stream_counterexample:
  "Lexer_tokens [CHR 0x22, CHR ''a''] = Inl FailedToParseString"
  by (simp add: lexer_eval cong: sum.case_cong_weak)

lemma maximal_run:
  assumes "\<forall>c\<in>set ds. P c" and "rest = [] \<or> \<not> P (hd rest)"
  shows "takeWhile P (ds @ rest) = ds" and "dropWhile P (ds @ rest) = rest"
proof -
  have "takeWhile P rest = []" "dropWhile P rest = rest"
    using assms(2) by (cases rest; simp)+
  with assms(1) show "takeWhile P (ds @ rest) = ds" and "dropWhile P (ds @ rest) = rest"
    by (simp_all add: takeWhile_append2 dropWhile_append2)
qed

lemma sint_of_nat_int:
  assumes "n \<le> INT_MAX"
  shows "sint (of_nat n :: 32 word) = int n"
proof -
  have "int n < 2 ^ 31" using assms by (simp add: INT_MAX_def)
  then have "signed_take_bit 31 (int n) = int n"
    by (simp add: signed_take_bit_int_eq_self)
  then show ?thesis by (simp add: signed_of_nat)
qed

text \<open>
  Claim C8, amended: when the scanner is at a maximal run of digits that starts a token,
  it returns a \<^verbatim>\<open>Number\<close> token whose payload is the value of the run as an \<^verbatim>\<open>int\<close> of 32
  bits, and consumes the run; when the value is beyond \<^verbatim>\<open>INT_MAX\<close> (\<open>2^31 - 1\<close>)
  \<^verbatim>\<open>std::stoi\<close> throws \<^verbatim>\<open>std::out_of_range\<close> and no token is returned.
\<close>

theorem Number_token_is_int:
  assumes "ds \<noteq> []" and "\<forall>c\<in>set ds. IsNum c" and "rest = [] \<or> \<not> IsNum (hd rest)"
    and "input_stream lx = ds @ rest"
    and "start_of_line lx \<longrightarrow> current_indent lx = line_indent lx"
  shows "ReadNextToken lx =
           (if decimal_value ds \<le> INT_MAX
            then Inr (lx\<lparr>input_stream := rest, start_of_line := False,
                          current_token := Number_tok (of_nat (decimal_value ds))\<rparr>)
            else Inl StoiOutOfRange)
       \<and> (decimal_value ds \<le> INT_MAX \<longrightarrow>
            sint (of_nat (decimal_value ds) :: 32 word) = int (decimal_value ds))"
proof -
  obtain d ds' where ds: "ds = d # ds'" using assms(1) by (cases ds) auto
  with assms(2) have d: "IsNum d" by simp
  then have p: "peek (input_stream lx) = d" "d \<noteq> CHR 0xFF" "d \<noteq> CHR 0x0A" "d \<noteq> CHR ''#''" "d \<noteq> CHR '' ''"
    using assms(4) ds by (auto simp: peek_def IsNum_def less_eq_char_def)
  have run: "takeWhile IsNum (input_stream lx) = ds" "dropWhile IsNum (input_stream lx) = rest"
    using maximal_run [OF assms(2,3)] assms(4) by simp_all
  have "ParseToken lx =
           (if decimal_value ds \<le> INT_MAX
            then Inr (lx\<lparr>input_stream := rest, current_token := Number_tok (of_nat (decimal_value ds))\<rparr>)
            else Inl StoiOutOfRange)"
    using p(1) d run assms(1) by (simp add: ParseToken_def ReadNumber_def stoi_def Let_def)
  then have "ReadNextToken lx =
           (if decimal_value ds \<le> INT_MAX
            then Inr (lx\<lparr>input_stream := rest, start_of_line := False,
                          current_token := Number_tok (of_nat (decimal_value ds))\<rparr>)
            else Inl StoiOutOfRange)"
    using p assms(5) by (auto simp: ReadNextToken.simps [of lx])
  then show ?thesis using sint_of_nat_int by blast
qed

theorem Number_token_is_int_witness:
  "ReadNextToken \<lparr>input_stream = ''2147483647 + 1'', start_of_line = True, current_indent = 0,
                   line_indent = 0, current_token = Number_tok 0\<rparr>
     = Inr \<lparr>input_stream = '' + 1'', start_of_line = False, current_indent = 0,
            line_indent = 0, current_token = Number_tok 2147483647\<rparr>
 \<and> sint (2147483647 :: 32 word) = 2147483647
 \<and> ReadNextToken \<lparr>input_stream = ''2147483648'', start_of_line = True, current_indent = 0,
                   line_indent = 0, current_token = Number_tok 0\<rparr>
     = Inl StoiOutOfRange"
proof -
  have v: "decimal_value ''2147483647'' = 2147483647" "decimal_value ''2147483648'' = 2147483648"
    by (simp_all add: decimal_value_def digit_value_def)
  have a: "''2147483647'' \<noteq> []" "\<forall>c\<in>set ''2147483647''. IsNum c" "'' + 1'' = [] \<or> \<not> IsNum (hd '' + 1'')"
    by (simp_all add: IsNum_def less_eq_char_def)
  have b: "''2147483648'' \<noteq> []" "\<forall>c\<in>set ''2147483648''. IsNum c" "[] = [] \<or> \<not> IsNum (hd [])"
    by (simp_all add: IsNum_def less_eq_char_def)
  show ?thesis
    using Number_token_is_int [OF a, of "\<lparr>input_stream = ''2147483647 + 1'', start_of_line = True, current_indent = 0,
                   line_indent = 0, current_token = Number_tok 0\<rparr>"]
      Number_token_is_int [OF b, of "\<lparr>input_stream = ''2147483648'', start_of_line = True, current_indent = 0,
                   line_indent = 0, current_token = Number_tok 0\<rparr>"] v
    by (simp add: INT_MAX_def)
qed

text \<open>
  Claim C8 as stated fails on \<^verbatim>\<open>3000000000\<close>, which fits in 64 bits and not in 32: the
  scanner throws.
\<close>

theorem Number_token_i64_counterexample:
  "decimal_value ''3000000000'' = 3000000000
 \<and> (3000000000 :: nat) < 2 ^ 63
 \<and> ReadNumber ''3000000000'' = Inl StoiOutOfRange
 \<and> Lexer_tokens ''3000000000'' = Inl StoiOutOfRange"
  by (simp add: lexer_eval cong: sum.case_cong_weak)

end
